theory Spec2Isabelle
  imports Main "HOL-Library.AList" "HOL-Library.Multiset" "HOL-Library.Word"
begin

section \<open>Go values used by the snapstore package\<close>

text \<open>
  A Go \<open>error\<close> is an interface value: either \<open>nil\<close> or an object with an
  \<open>Error()\<close> text. The classifier also asks whether the object implements
  \<open>net.Error\<close> and, if so, reads its \<open>Timeout()\<close> and \<open>Temporary()\<close> flags.
  A non-nil error is an \<open>errval\<close>; the interface value is \<open>errval option\<close> with
  \<open>None\<close> for \<open>nil\<close>.
\<close>

datatype errval = ErrVal (ErrorText: string) (netError: "(bool \<times> bool) option")

type_synonym error = "errval option"

text \<open>\<open>fmt.Errorf\<close> without \<open>%w\<close> builds a plain error that is no \<open>net.Error\<close>.\<close>

definition Errorf :: "string \<Rightarrow> error" where
  "Errorf s = Some (ErrVal s None)"

text \<open>The verb \<open>%v\<close> applied to an error prints its text, and \<open><nil>\<close> for \<open>nil\<close>.\<close>

definition fmtV :: "error \<Rightarrow> string" where
  "fmtV e = (case e of None \<Rightarrow> ''<nil>'' | Some v \<Rightarrow> ErrorText v)"

text \<open>\<open>strings.HasPrefix\<close> and \<open>strings.Contains\<close> on byte strings.\<close>

fun HasPrefix :: "string \<Rightarrow> string \<Rightarrow> bool" where
  "HasPrefix s [] = True"
| "HasPrefix [] (c # p) = False"
| "HasPrefix (a # s) (c # p) = (a = c \<and> HasPrefix s p)"

fun Contains :: "string \<Rightarrow> string \<Rightarrow> bool" where
  "Contains [] sub = (sub = [])"
| "Contains (a # s) sub = (HasPrefix (a # s) sub \<or> Contains s sub)"

type_synonym byte = "8 word"

text \<open>
  An \<open>io.ReadCloser\<close> handed to \<open>Save\<close> or returned by \<open>Fetch\<close>: the bytes it
  yields and the error (if any) that ends the reading. \<open>io.ReadAll\<close> returns both.
\<close>

datatype ReadCloser = Reader (content: "byte list") (failure: error)

definition ReadAll :: "ReadCloser \<Rightarrow> byte list \<times> error" where
  "ReadAll rc = (content rc, failure rc)"

text \<open>\<open>io.NopCloser(bytes.NewReader(data))\<close>: a reader over a buffer never fails.\<close>

definition NopCloser :: "byte list \<Rightarrow> ReadCloser" where
  "NopCloser data = Reader data None"

text \<open>
  Modelled from the spec: the declaration of \<open>brtypes.Snapshot\<close> is not part of the
  sources. The functions below read the fields \<open>SnapDir\<close> and \<open>SnapName\<close>; the
  data model adds the kind, the start and end revisions and the creation time.
\<close>

record Snapshot =
  Kind :: string
  StartRevision :: int
  LastRevision :: int
  CreatedOn :: int
  SnapDir :: string
  SnapName :: string

type_synonym SnapList = "Snapshot list"

section \<open>The capability contract\<close>

text \<open>
  \<open>brtypes.SnapStore\<close> is an interface with four methods. A backend is the four
  methods together with the state \<open>self\<close> they act on; every method returns the
  backend's new state next to its Go results. A Go result pair \<open>(value, error)\<close> is a
  pair here too, the \<open>nil\<close> list being \<open>[]\<close> and the \<open>nil\<close> reader \<open>None\<close>.
\<close>

record 'b SnapStore =
  Fetch_m :: "'b \<Rightarrow> Snapshot \<Rightarrow> (ReadCloser option \<times> error) \<times> 'b"
  List_m :: "'b \<Rightarrow> bool \<Rightarrow> (SnapList \<times> error) \<times> 'b"
  Save_m :: "'b \<Rightarrow> Snapshot \<Rightarrow> ReadCloser \<Rightarrow> error \<times> 'b"
  Delete_m :: "'b \<Rightarrow> Snapshot \<Rightarrow> error \<times> 'b"
  self :: 'b

definition callFetch :: "'b SnapStore \<Rightarrow> Snapshot \<Rightarrow> (ReadCloser option \<times> error) \<times> 'b SnapStore" where
  "callFetch st snap = (let (r, b) = Fetch_m st (self st) snap in (r, st\<lparr>self := b\<rparr>))"

definition callList :: "'b SnapStore \<Rightarrow> bool \<Rightarrow> (SnapList \<times> error) \<times> 'b SnapStore" where
  "callList st includeAll = (let (r, b) = List_m st (self st) includeAll in (r, st\<lparr>self := b\<rparr>))"

definition callSave :: "'b SnapStore \<Rightarrow> Snapshot \<Rightarrow> ReadCloser \<Rightarrow> error \<times> 'b SnapStore" where
  "callSave st snap rc = (let (r, b) = Save_m st (self st) snap rc in (r, st\<lparr>self := b\<rparr>))"

definition callDelete :: "'b SnapStore \<Rightarrow> Snapshot \<Rightarrow> error \<times> 'b SnapStore" where
  "callDelete st snap = (let (r, b) = Delete_m st (self st) snap in (r, st\<lparr>self := b\<rparr>))"

section \<open>The error classifier\<close>

text \<open>
  \<open>DualSnapStore.isTransientError\<close> and \<open>ResilientS3SnapStore.IsTransientError\<close>
  have the same body; both are this function.
\<close>

definition isTransientError :: "error \<Rightarrow> bool" where
  "isTransientError err =
     (case err of
        None \<Rightarrow> False
      | Some v \<Rightarrow>
          (let errStr = ErrorText v in
           if Contains errStr ''no such host'' \<or>
              Contains errStr ''dial tcp: lookup'' \<or>
              Contains errStr ''request send failed'' then True
           else if Contains errStr ''connection refused'' \<or>
              Contains errStr ''connection timeout'' \<or>
              Contains errStr ''i/o timeout'' then True
           else (case netError v of
                   Some (timeout, temporary) \<Rightarrow> timeout \<or> temporary
                 | None \<Rightarrow> False)))"

section \<open>The dual store\<close>

text \<open>
  The struct \<open>DualSnapStore\<close>: the two backends and the circuit-breaker fields. The
  logger is left out (logging changes no result), and so is the lock: \<open>Save\<close>,
  \<open>Fetch\<close>, \<open>List\<close> and \<open>Delete\<close> below are calls that no other call of the same store
  overlaps; overlapping calls have a section of their own. \<open>primaryFailCount\<close> is a Go \<open>int\<close>; lemma
  \<open>reachable_count_bounds\<close> below shows that it stays between 0 and 3, so it never wraps.
  The field \<open>calls\<close> is instrumentation: it lists, in order, every backend method the
  dual store has invoked together with the error that invocation returned, the way a
  spy backend would record them.
\<close>

datatype endpoint = PrimaryEP | SecondaryEP

datatype meth = MFetch | MList | MSave | MDelete

record ('p, 's) DualSnapStore =
  primary :: "'p SnapStore"
  secondary :: "'s SnapStore"
  primaryFailed :: bool
  primaryFailCount :: int
  calls :: "(endpoint \<times> meth \<times> error) list"

definition NewDualSnapStore :: "'p SnapStore \<Rightarrow> 's SnapStore \<Rightarrow> ('p, 's) DualSnapStore" where
  "NewDualSnapStore p s =
     \<lparr>primary = p, secondary = s, primaryFailed = False, primaryFailCount = 0, calls = []\<rparr>"

definition resetPrimaryFailureState :: "('p, 's) DualSnapStore \<Rightarrow> ('p, 's) DualSnapStore" where
  "resetPrimaryFailureState ds = ds\<lparr>primaryFailed := False, primaryFailCount := 0\<rparr>"

definition isPrimaryDisabled :: "('p, 's) DualSnapStore \<Rightarrow> bool" where
  "isPrimaryDisabled ds = (primaryFailed ds \<and> primaryFailCount ds \<ge> 3)"

definition recordPrimaryFailure :: "('p, 's) DualSnapStore \<Rightarrow> error \<Rightarrow> ('p, 's) DualSnapStore" where
  "recordPrimaryFailure ds err =
     (if isTransientError err
      then ds\<lparr>primaryFailed := True, primaryFailCount := primaryFailCount ds + 1\<rparr>
      else ds\<lparr>primaryFailCount := 0\<rparr>)"

text \<open>The eight backend invocations \<open>ds.primary.M(...)\<close> and \<open>ds.secondary.M(...)\<close>.\<close>

definition primary_Save ::
  "('p, 's) DualSnapStore \<Rightarrow> Snapshot \<Rightarrow> ReadCloser \<Rightarrow> error \<times> ('p, 's) DualSnapStore" where
  "primary_Save ds snap rc =
     (let (r, p) = callSave (primary ds) snap rc
      in (r, ds\<lparr>primary := p, calls := calls ds @ [(PrimaryEP, MSave, r)]\<rparr>))"

definition secondary_Save ::
  "('p, 's) DualSnapStore \<Rightarrow> Snapshot \<Rightarrow> ReadCloser \<Rightarrow> error \<times> ('p, 's) DualSnapStore" where
  "secondary_Save ds snap rc =
     (let (r, s) = callSave (secondary ds) snap rc
      in (r, ds\<lparr>secondary := s, calls := calls ds @ [(SecondaryEP, MSave, r)]\<rparr>))"

definition primary_Fetch ::
  "('p, 's) DualSnapStore \<Rightarrow> Snapshot \<Rightarrow> (ReadCloser option \<times> error) \<times> ('p, 's) DualSnapStore" where
  "primary_Fetch ds snap =
     (let (r, p) = callFetch (primary ds) snap
      in (r, ds\<lparr>primary := p, calls := calls ds @ [(PrimaryEP, MFetch, snd r)]\<rparr>))"

definition secondary_Fetch ::
  "('p, 's) DualSnapStore \<Rightarrow> Snapshot \<Rightarrow> (ReadCloser option \<times> error) \<times> ('p, 's) DualSnapStore" where
  "secondary_Fetch ds snap =
     (let (r, s) = callFetch (secondary ds) snap
      in (r, ds\<lparr>secondary := s, calls := calls ds @ [(SecondaryEP, MFetch, snd r)]\<rparr>))"

definition primary_List ::
  "('p, 's) DualSnapStore \<Rightarrow> bool \<Rightarrow> (SnapList \<times> error) \<times> ('p, 's) DualSnapStore" where
  "primary_List ds includeAll =
     (let (r, p) = callList (primary ds) includeAll
      in (r, ds\<lparr>primary := p, calls := calls ds @ [(PrimaryEP, MList, snd r)]\<rparr>))"

definition secondary_List ::
  "('p, 's) DualSnapStore \<Rightarrow> bool \<Rightarrow> (SnapList \<times> error) \<times> ('p, 's) DualSnapStore" where
  "secondary_List ds includeAll =
     (let (r, s) = callList (secondary ds) includeAll
      in (r, ds\<lparr>secondary := s, calls := calls ds @ [(SecondaryEP, MList, snd r)]\<rparr>))"

definition primary_Delete ::
  "('p, 's) DualSnapStore \<Rightarrow> Snapshot \<Rightarrow> error \<times> ('p, 's) DualSnapStore" where
  "primary_Delete ds snap =
     (let (r, p) = callDelete (primary ds) snap
      in (r, ds\<lparr>primary := p, calls := calls ds @ [(PrimaryEP, MDelete, r)]\<rparr>))"

definition secondary_Delete ::
  "('p, 's) DualSnapStore \<Rightarrow> Snapshot \<Rightarrow> error \<times> ('p, 's) DualSnapStore" where
  "secondary_Delete ds snap =
     (let (r, s) = callDelete (secondary ds) snap
      in (r, ds\<lparr>secondary := s, calls := calls ds @ [(SecondaryEP, MDelete, r)]\<rparr>))"

subsection \<open>Save\<close>

text \<open>
  The second half of \<open>Save\<close> (the secondary attempt and the aggregate error), reached
  with the primary's recorded error when the primary failed or was skipped.
\<close>

definition Save_secondary ::
  "('p, 's) DualSnapStore \<Rightarrow> Snapshot \<Rightarrow> byte list \<Rightarrow> error \<Rightarrow> error \<times> ('p, 's) DualSnapStore" where
  "Save_secondary ds snap data primaryResultError =
     (let (err, ds') = secondary_Save ds snap (NopCloser data) in
      if err \<noteq> None
      then (Errorf (''failed to save snapshot '' @ SnapName snap @
                    '' to both endpoints - Primary: '' @ fmtV primaryResultError @
                    '', Secondary: '' @ fmtV err), ds')
      else (None, ds'))"

definition Save ::
  "('p, 's) DualSnapStore \<Rightarrow> Snapshot \<Rightarrow> ReadCloser \<Rightarrow> error \<times> ('p, 's) DualSnapStore" where
  "Save ds snap rc =
     (let (data, err) = ReadAll rc in
      if err \<noteq> None
      then (Errorf (''failed to read snapshot data: '' @ fmtV err), ds)
      else if \<not> isPrimaryDisabled ds
      then (let (err, ds') = primary_Save ds snap (NopCloser data) in
            if err \<noteq> None
            then Save_secondary (recordPrimaryFailure ds' err) snap data err
            else (None, resetPrimaryFailureState ds'))
      else Save_secondary ds snap data
             (Errorf ''primary endpoint disabled due to repeated failures''))"

subsection \<open>Fetch\<close>

definition Fetch_secondary ::
  "('p, 's) DualSnapStore \<Rightarrow> Snapshot \<Rightarrow> (ReadCloser option \<times> error) \<times> ('p, 's) DualSnapStore" where
  "Fetch_secondary ds snap =
     (let ((rc, err), ds') = secondary_Fetch ds snap in
      if err = None
      then ((rc, None), ds')
      else ((None, Errorf (''failed to fetch snapshot '' @ SnapName snap @
                           '' from both endpoints - Primary: '' @
                           fmtV (Errorf ''disabled due to failures'') @
                           '', Secondary: '' @ fmtV err)), ds'))"

definition Fetch ::
  "('p, 's) DualSnapStore \<Rightarrow> Snapshot \<Rightarrow> (ReadCloser option \<times> error) \<times> ('p, 's) DualSnapStore" where
  "Fetch ds snap =
     (if \<not> isPrimaryDisabled ds
      then (let ((rc, err), ds') = primary_Fetch ds snap in
            if err = None
            then ((rc, None), resetPrimaryFailureState ds')
            else Fetch_secondary (recordPrimaryFailure ds' err) snap)
      else Fetch_secondary ds snap)"

subsection \<open>mergeSnapshots\<close>

text \<open>The map key \<open>fmt.Sprintf("%s-%s", snap.SnapDir, snap.SnapName)\<close>.\<close>

definition snapKey :: "Snapshot \<Rightarrow> string" where
  "snapKey snap = SnapDir snap @ ''-'' @ SnapName snap"

text \<open>
  The Go map \<open>snapMap\<close> is an association list with one pair per key;
  \<open>snapMap[key] = snap\<close> is \<open>AList.update\<close>, and the test \<open>_, exists := snapMap[key]\<close>
  is a lookup with \<open>map_of\<close>. The entries of a \<open>SnapList\<close> are pointers to snapshots;
  they are snapshot values here, so a \<open>nil\<close> entry (on which the loop would panic) is
  not an input of the model.
\<close>

definition addPrimary :: "SnapList \<Rightarrow> (string \<times> Snapshot) list \<Rightarrow> (string \<times> Snapshot) list" where
  "addPrimary primarySnaps snapMap =
     fold (\<lambda>snap m. AList.update (snapKey snap) snap m) primarySnaps snapMap"

definition addSecondary :: "SnapList \<Rightarrow> (string \<times> Snapshot) list \<Rightarrow> (string \<times> Snapshot) list" where
  "addSecondary secondarySnaps snapMap =
     fold (\<lambda>snap m. if map_of m (snapKey snap) = None
                     then AList.update (snapKey snap) snap m else m) secondarySnaps snapMap"

text \<open>
  \<open>sort.Sort\<close> orders the slice by the \<open>Less\<close> method of \<open>brtypes.SnapList\<close>.
  That method is declared outside the sources, so the ordering is the parameter
  \<open>lt\<close>. The sort is an insertion sort that keeps the order of entries neither of
  which is less than the other.
\<close>

fun insertSnap :: "(Snapshot \<Rightarrow> Snapshot \<Rightarrow> bool) \<Rightarrow> Snapshot \<Rightarrow> SnapList \<Rightarrow> SnapList" where
  "insertSnap lt x [] = [x]"
| "insertSnap lt x (y # ys) = (if lt y x then y # insertSnap lt x ys else x # y # ys)"

definition sortSnaps :: "(Snapshot \<Rightarrow> Snapshot \<Rightarrow> bool) \<Rightarrow> SnapList \<Rightarrow> SnapList" where
  "sortSnaps lt xs = foldr (insertSnap lt) xs []"

text \<open>
  Go visits the entries of a map in an unspecified order, and \<open>sort.Sort\<close> is not
  stable. The parameter \<open>iter\<close> is the order in which \<open>range snapMap\<close> hands out the
  values; with \<open>iter\<close> ranging over all rearrangements, the stable sort after it yields
  every sorted arrangement \<open>sort.Sort\<close> can produce.
\<close>

definition mergeSnapshots ::
  "(Snapshot \<Rightarrow> Snapshot \<Rightarrow> bool) \<Rightarrow> (SnapList \<Rightarrow> SnapList) \<Rightarrow> SnapList \<Rightarrow> SnapList \<Rightarrow> SnapList" where
  "mergeSnapshots lt iter primarySnaps secondarySnaps =
     (let snapMap = addSecondary secondarySnaps (addPrimary primarySnaps []);
          mergedSnaps = iter (map snd snapMap)
      in sortSnaps lt mergedSnaps)"

subsection \<open>List\<close>

text \<open>
  Each listing goroutine sends either its list or its error on a channel of capacity 1.
  After \<open>wg.Wait()\<close> all four channels are closed, and a \<open>select\<close> over the list
  channel and the error channel of an endpoint collects the outcome. A channel is
  modelled by its buffer (\<open>None\<close> when nothing was sent). A receive from a closed
  channel never blocks: it yields the buffered value, or the zero value of the element
  type when the buffer is empty. So both \<open>case\<close>s of the \<open>select\<close> are ready, the
  \<open>default\<close> is never taken, and Go chooses one of the ready cases at random; the
  choice is the parameter of type \<open>select_case\<close>.
\<close>

datatype select_case = RecvSnaps | RecvErr

definition recvClosed :: "'a option \<Rightarrow> 'a \<Rightarrow> 'a" where
  "recvClosed buf zero = (case buf of Some v \<Rightarrow> v | None \<Rightarrow> zero)"

definition selectOutcome :: "select_case \<Rightarrow> SnapList option \<Rightarrow> errval option \<Rightarrow> SnapList \<times> error" where
  "selectOutcome pick snapsCh errCh =
     (case pick of
        RecvSnaps \<Rightarrow> (recvClosed snapsCh [], None)
      | RecvErr \<Rightarrow> ([], recvClosed (map_option Some errCh) None))"

text \<open>What a listing goroutine leaves in its two channels.\<close>

definition listChannels :: "SnapList \<times> error \<Rightarrow> SnapList option \<times> errval option" where
  "listChannels r = (case snd r of Some e \<Rightarrow> (None, Some e) | None \<Rightarrow> (Some (fst r), None))"

text \<open>
  The two goroutines act on different backends, so the order in which they run does not
  change any result; the instrumentation lists the primary's call first.
\<close>

definition List ::
  "(Snapshot \<Rightarrow> Snapshot \<Rightarrow> bool) \<Rightarrow> ('p, 's) DualSnapStore \<Rightarrow> bool \<Rightarrow>
   select_case \<Rightarrow> select_case \<Rightarrow> (SnapList \<Rightarrow> SnapList) \<Rightarrow>
   (SnapList \<times> error) \<times> ('p, 's) DualSnapStore" where
  "List lt ds includeAll pickP pickS iter =
     (let (rp, ds1) = primary_List ds includeAll;
          (primarySnapsCh, primaryErrCh) = listChannels rp;
          (rs, ds2) = secondary_List ds1 includeAll;
          (secondarySnapsCh, secondaryErrCh) = listChannels rs;
          (primarySnaps, primaryErr) = selectOutcome pickP primarySnapsCh primaryErrCh;
          (secondarySnaps, secondaryErr) = selectOutcome pickS secondarySnapsCh secondaryErrCh
      in if primaryErr \<noteq> None \<and> secondaryErr \<noteq> None
         then (if isTransientError primaryErr \<and> isTransientError secondaryErr
               then (([], Errorf (''both endpoints temporarily unavailable - Primary: '' @
                                  fmtV primaryErr @ '', Secondary: '' @ fmtV secondaryErr)), ds2)
               else (([], Errorf (''failed to list snapshots from both endpoints - Primary: '' @
                                  fmtV primaryErr @ '', Secondary: '' @ fmtV secondaryErr)), ds2))
         else ((mergeSnapshots lt iter primarySnaps secondarySnaps, None), ds2))"

subsection \<open>Delete\<close>

record OperationResult =
  Endpoint :: string
  Success :: bool
  Error :: error

definition deleteResult :: "string \<Rightarrow> error \<Rightarrow> OperationResult" where
  "deleteResult ep err =
     (if err \<noteq> None then \<lparr>Endpoint = ep, Success = False, Error = err\<rparr>
      else \<lparr>Endpoint = ep, Success = True, Error = None\<rparr>)"

definition Delete ::
  "('p, 's) DualSnapStore \<Rightarrow> Snapshot \<Rightarrow> error \<times> ('p, 's) DualSnapStore" where
  "Delete ds snap =
     (let (errP, ds1) = primary_Delete ds snap;
          primaryResult = deleteResult ''primary'' errP;
          (errS, ds2) = secondary_Delete ds1 snap;
          secondaryResult = deleteResult ''secondary'' errS
      in if Success primaryResult \<and> Success secondaryResult then (None, ds2)
         else if \<not> Success primaryResult \<and> \<not> Success secondaryResult
         then (Errorf (''failed to delete snapshot '' @ SnapName snap @
                       '' from both endpoints - Primary: '' @ fmtV (Error primaryResult) @
                       '', Secondary: '' @ fmtV (Error secondaryResult)), ds2)
         else (None, ds2))"

subsection \<open>Sequences of operations\<close>

text \<open>
  One call of a method of the dual store, with everything the call depends on besides
  the store: its arguments and, for \<open>List\<close>, the choices Go makes at run time.
\<close>

datatype op =
    OpSave Snapshot ReadCloser
  | OpFetch Snapshot
  | OpList bool select_case select_case "SnapList \<Rightarrow> SnapList"
  | OpDelete Snapshot

fun step :: "(Snapshot \<Rightarrow> Snapshot \<Rightarrow> bool) \<Rightarrow> op \<Rightarrow> ('p, 's) DualSnapStore \<Rightarrow> ('p, 's) DualSnapStore" where
  "step lt (OpSave snap rc) ds = snd (Save ds snap rc)"
| "step lt (OpFetch snap) ds = snd (Fetch ds snap)"
| "step lt (OpList includeAll pickP pickS iter) ds = snd (List lt ds includeAll pickP pickS iter)"
| "step lt (OpDelete snap) ds = snd (Delete ds snap)"

text \<open>
  A run is a sequence of calls that do not overlap: each call returns before the next
  one starts, so each is one step. Calls of one store that overlap in time are not runs;
  the section on overlapping calls below models a call that is overtaken by others
  between its disable check and its primary call.
\<close>

definition run :: "(Snapshot \<Rightarrow> Snapshot \<Rightarrow> bool) \<Rightarrow> op list \<Rightarrow> ('p, 's) DualSnapStore \<Rightarrow> ('p, 's) DualSnapStore" where
  "run lt ops ds = fold (step lt) ops ds"

text \<open>The backend invocations an operation adds to the instrumentation.\<close>

definition invoked ::
  "('p, 's) DualSnapStore \<Rightarrow> ('p, 's) DualSnapStore \<Rightarrow> (endpoint \<times> meth \<times> error) list" where
  "invoked ds ds' = drop (length (calls ds)) (calls ds')"

fun isSaveOrFetch :: "op \<Rightarrow> bool" where
  "isSaveOrFetch (OpSave snap rc) = True"
| "isSaveOrFetch (OpFetch snap) = True"
| "isSaveOrFetch (OpList includeAll pickP pickS iter) = False"
| "isSaveOrFetch (OpDelete snap) = False"

subsection \<open>Test backends\<close>

text \<open>
  A spy backend for concrete runs: every method returns the error \<open>e\<close> (success when
  \<open>e\<close> is \<open>nil\<close>, then with an empty reader or the list \<open>snaps\<close>), and the state counts
  the invocations.
\<close>

definition spyStore :: "error \<Rightarrow> SnapList \<Rightarrow> nat SnapStore" where
  "spyStore e snaps =
     \<lparr>Fetch_m = (\<lambda>n snap. ((if e = None then Some (NopCloser []) else None, e), Suc n)),
      List_m = (\<lambda>n includeAll. ((if e = None then snaps else [], e), Suc n)),
      Save_m = (\<lambda>n snap rc. (e, Suc n)),
      Delete_m = (\<lambda>n snap. (e, Suc n)),
      self = 0\<rparr>"

definition snapA :: Snapshot where
  "snapA = \<lparr>Kind = ''Full'', StartRevision = 0, LastRevision = 1, CreatedOn = 100,
            SnapDir = ''A'', SnapName = ''X''\<rparr>"

definition errDenied :: error where
  "errDenied = Errorf ''AccessDenied: access denied''"

definition errNoHost :: error where
  "errNoHost = Errorf ''dial tcp: lookup backup.example: no such host''"

definition errIO :: error where
  "errIO = Errorf ''read pipe: unexpected EOF''"

definition dsHealthy :: "(nat, nat) DualSnapStore" where
  "dsHealthy = NewDualSnapStore (spyStore None []) (spyStore None [])"

definition rcGood :: ReadCloser where
  "rcGood = Reader [1, 2, 3] None"

definition rcBroken :: ReadCloser where
  "rcBroken = Reader [1] errIO"

section \<open>The resilient wrapper\<close>

text \<open>
  \<open>ResilientS3SnapStore\<close> embeds an \<open>S3SnapStore\<close> and overrides the four methods of
  the contract. The embedded store is any backend; each method takes the embedded
  store's methods and its current state.
\<close>

definition Resilient_List :: "'b SnapStore \<Rightarrow> 'b \<Rightarrow> bool \<Rightarrow> (SnapList \<times> error) \<times> 'b" where
  "Resilient_List S3SnapStore b includeAll =
     (let ((snapList, err), b') = List_m S3SnapStore b includeAll in
      if err \<noteq> None \<and> isTransientError err
      then (([], None), b')
      else ((snapList, err), b'))"

definition Resilient_Fetch ::
  "'b SnapStore \<Rightarrow> 'b \<Rightarrow> Snapshot \<Rightarrow> (ReadCloser option \<times> error) \<times> 'b" where
  "Resilient_Fetch S3SnapStore b snap =
     (let ((rc, err), b') = Fetch_m S3SnapStore b snap in
      if err \<noteq> None \<and> isTransientError err
      then ((None, err), b')
      else ((rc, err), b'))"

definition Resilient_Save :: "'b SnapStore \<Rightarrow> 'b \<Rightarrow> Snapshot \<Rightarrow> ReadCloser \<Rightarrow> error \<times> 'b" where
  "Resilient_Save S3SnapStore b snap rc =
     (let (err, b') = Save_m S3SnapStore b snap rc in
      if err \<noteq> None \<and> isTransientError err
      then (err, b')
      else (err, b'))"

definition Resilient_Delete :: "'b SnapStore \<Rightarrow> 'b \<Rightarrow> Snapshot \<Rightarrow> error \<times> 'b" where
  "Resilient_Delete S3SnapStore b snap =
     (let (err, b') = Delete_m S3SnapStore b snap in
      if err \<noteq> None \<and> isTransientError err
      then (err, b')
      else (err, b'))"


text \<open>
  A backend for concrete runs whose state is the error its next call returns; every call
  leaves \<open>nil\<close> behind, and a \<open>List\<close> or \<open>Fetch\<close> returns data next to the error.
\<close>

definition flakyStore :: "error \<Rightarrow> error SnapStore" where
  "flakyStore e =
     \<lparr>Fetch_m = (\<lambda>b snap. ((Some (NopCloser [7]), b), None)),
      List_m = (\<lambda>b includeAll. (([snapA], b), None)),
      Save_m = (\<lambda>b snap rc. (b, None)),
      Delete_m = (\<lambda>b snap. (b, None)),
      self = e\<rparr>"

section \<open>The chunk-upload coordinator\<close>

text \<open>
  Modelled from the spec: the declarations of \<open>chunk\<close> and \<open>chunkUploadResult\<close> are
  not part of the sources. The coordinator reads the fields \<open>id\<close>, \<open>offset\<close> and
  \<open>attempt\<close> of a chunk (the attempt counter of the glossary) and the fields \<open>err\<close>
  and \<open>chunk\<close> of a result. The field \<open>id\<close> is named \<open>chunk_id\<close> here, and the
  fields of a result \<open>res_err\<close> and \<open>res_chunk\<close>.
\<close>

record chunk =
  chunk_id :: int
  offset :: int
  attempt :: nat

record chunkUploadResult =
  res_err :: error
  res_chunk :: chunk

text \<open>
  What a call of \<open>collectChunkUploadError\<close> has done when it returns: the result it
  returns (\<open>None\<close> for \<open>nil\<close>), whether it closed \<open>stopCh\<close>, the timers it started with
  \<open>time.AfterFunc\<close> (each with its duration in nanoseconds and the chunk its callback
  re-submits) and the results it left in \<open>resCh\<close>.
\<close>

record collected =
  returned :: "chunkUploadResult option"
  stopClosed :: bool
  timers :: "(64 word \<times> chunk) list"
  undrained :: "chunkUploadResult list"

text \<open>
  \<open>delayTime := (1 << chunk.attempt)\<close> is an \<open>int\<close> (64 bits here), and
  \<open>time.Duration(delayTime) * time.Second\<close> multiplies it by \<open>10^9\<close> in \<open>int64\<close>.
\<close>

definition delayTime :: "nat \<Rightarrow> 64 word" where
  "delayTime a = push_bit a 1"

definition timerDuration :: "nat \<Rightarrow> 64 word" where
  "timerDuration a = delayTime a * 1000000000"

text \<open>
  The loop \<open>for chunkRes := range resCh\<close>. The results the channel delivers are the
  list \<open>resCh\<close>; \<open>closed\<close> says whether the channel is closed after them. When the
  list is used up the loop ends if the channel is closed; otherwise the receive blocks
  for ever and the function does not return (\<open>None\<close>). The constant
  \<open>maxRetryAttempts\<close> is declared outside the sources and is a parameter.
\<close>

fun collectLoop ::
  "nat \<Rightarrow> bool \<Rightarrow> 64 word \<Rightarrow> (64 word \<times> chunk) list \<Rightarrow> chunkUploadResult list \<Rightarrow> collected option" where
  "collectLoop maxRetryAttempts closed remainingChunks started [] =
     (if closed
      then Some \<lparr>returned = None, stopClosed = False, timers = started, undrained = []\<rparr>
      else None)"
| "collectLoop maxRetryAttempts closed remainingChunks started (chunkRes # resCh) =
     (if res_err chunkRes \<noteq> None
      then (if attempt (res_chunk chunkRes) = maxRetryAttempts
            then Some \<lparr>returned = Some chunkRes, stopClosed = True, timers = started,
                       undrained = resCh\<rparr>
            else (let chunk = res_chunk chunkRes;
                      d = timerDuration (attempt chunk);
                      chunk' = chunk\<lparr>attempt := attempt chunk + 1\<rparr>
                  in collectLoop maxRetryAttempts closed remainingChunks
                       (started @ [(d, chunk')]) resCh))
      else (let remainingChunks' = remainingChunks - 1 in
            if remainingChunks' = 0
            then Some \<lparr>returned = None, stopClosed = True, timers = started, undrained = resCh\<rparr>
            else collectLoop maxRetryAttempts closed remainingChunks' started resCh))"

definition collectChunkUploadError ::
  "nat \<Rightarrow> bool \<Rightarrow> chunkUploadResult list \<Rightarrow> 64 word \<Rightarrow> collected option" where
  "collectChunkUploadError maxRetryAttempts closed resCh noOfChunks =
     collectLoop maxRetryAttempts closed noOfChunks [] resCh"

text \<open>
  The callback of a timer: when it fires it looks at \<open>stopCh\<close>; if that is closed it
  returns, otherwise it sends the chunk on \<open>chunkUploadCh\<close>. The result is what it sends.
\<close>

definition timerCallback :: "bool \<Rightarrow> chunk \<Rightarrow> chunk option" where
  "timerCallback stopClosedNow chunk = (if stopClosedNow then None else Some chunk)"

definition okResult :: "int \<Rightarrow> chunkUploadResult" where
  "okResult i = \<lparr>res_err = None, res_chunk = \<lparr>chunk_id = i, offset = 0, attempt = 0\<rparr>\<rparr>"

definition failResult :: "int \<Rightarrow> nat \<Rightarrow> chunkUploadResult" where
  "failResult i a = \<lparr>res_err = errNoHost, res_chunk = \<lparr>chunk_id = i, offset = 0, attempt = a\<rparr>\<rparr>"

section \<open>Auxiliary notions for the verification\<close>

text \<open>The two circuit-breaker fields of a dual store, and the invariant they keep.\<close>

definition breaker :: "('p, 's) DualSnapStore \<Rightarrow> bool \<times> int" where
  "breaker ds = (primaryFailed ds, primaryFailCount ds)"

definition breakerInv :: "('p, 's) DualSnapStore \<Rightarrow> bool" where
  "breakerInv ds = (0 \<le> primaryFailCount ds \<and> primaryFailCount ds \<le> 3 \<and>
                    (\<not> primaryFailed ds \<longrightarrow> primaryFailCount ds = 0))"

text \<open>
  Concrete inputs: an ordering by last revision, a dual store whose primary always fails
  with a DNS error, one whose primary always fails with a permission error, and the
  states of the first after one, two and three calls of \<open>Fetch\<close>.
\<close>

definition byRevision :: "Snapshot \<Rightarrow> Snapshot \<Rightarrow> bool" where
  "byRevision a b = (LastRevision a < LastRevision b)"

definition dsFlaky :: "(nat, nat) DualSnapStore" where
  "dsFlaky = NewDualSnapStore (spyStore errNoHost []) (spyStore None [])"

definition dsDenied :: "(nat, nat) DualSnapStore" where
  "dsDenied = NewDualSnapStore (spyStore errDenied []) (spyStore None [])"

definition dsFlaky1 :: "(nat, nat) DualSnapStore" where
  "dsFlaky1 = step byRevision (OpFetch snapA) dsFlaky"

definition dsFlaky2 :: "(nat, nat) DualSnapStore" where
  "dsFlaky2 = step byRevision (OpFetch snapA) dsFlaky1"

definition dsTripped :: "(nat, nat) DualSnapStore" where
  "dsTripped = step byRevision (OpFetch snapA) dsFlaky2"

text \<open>The \<open>case\<close> of the \<open>select\<close> whose channel holds what the goroutine sent.\<close>

definition sentCase :: "SnapList \<times> error \<Rightarrow> select_case" where
  "sentCase r = (if snd r \<noteq> None then RecvErr else RecvSnaps)"

text \<open>
  The pair (directory, name) of a snapshot, and the invariant of the map built by
  \<open>mergeSnapshots\<close>: one pair per key, each value stored under its own key.
\<close>

definition snapId :: "Snapshot \<Rightarrow> string \<times> string" where
  "snapId snap = (SnapDir snap, SnapName snap)"

definition keyed :: "(string \<times> Snapshot) list \<Rightarrow> bool" where
  "keyed m = (distinct (map fst m) \<and> (\<forall>(k, e) \<in> set m. k = snapKey e))"

text \<open>Snapshots for concrete merges.\<close>

definition snapA2 :: Snapshot where
  "snapA2 = \<lparr>Kind = ''Full'', StartRevision = 0, LastRevision = 2, CreatedOn = 200,
             SnapDir = ''A'', SnapName = ''X''\<rparr>"

definition snapB :: Snapshot where
  "snapB = \<lparr>Kind = ''Incr'', StartRevision = 2, LastRevision = 3, CreatedOn = 300,
            SnapDir = ''B'', SnapName = ''Y''\<rparr>"

definition snapDashP :: Snapshot where
  "snapDashP = \<lparr>Kind = ''Full'', StartRevision = 0, LastRevision = 1, CreatedOn = 100,
                SnapDir = ''a-b'', SnapName = ''c''\<rparr>"

definition snapDashS :: Snapshot where
  "snapDashS = \<lparr>Kind = ''Full'', StartRevision = 0, LastRevision = 2, CreatedOn = 200,
                SnapDir = ''a'', SnapName = ''b-c''\<rparr>"

text \<open>
  The timer the coordinator starts for a failed result: its duration and the chunk, with
  the attempt counter incremented, that its callback re-submits.
\<close>

definition resubmission :: "chunkUploadResult \<Rightarrow> 64 word \<times> chunk" where
  "resubmission r =
     (timerDuration (attempt (res_chunk r)),
      (res_chunk r)\<lparr>attempt := attempt (res_chunk r) + 1\<rparr>)"

section \<open>The store resolver\<close>






















section \<open>Calls that overlap\<close>

text \<open>
  \<open>Save\<close> and \<open>Fetch\<close> hold the lock only inside \<open>isPrimaryDisabled\<close>,
  \<open>recordPrimaryFailure\<close> and \<open>resetPrimaryFailureState\<close>; the call of the primary backend
  runs unlocked. So a call can read the disabled flag, be overtaken by other calls of the
  same store, and go on afterwards. \<open>Fetch_in_flight\<close> and \<open>Save_in_flight\<close> are the part
  of \<open>Fetch\<close> and \<open>Save\<close> that follows a disable check which found the primary enabled,
  run on the store as it is when the call goes on (for \<open>Save\<close>, with the bytes already
  read).
\<close>

definition Fetch_in_flight ::
  "('p, 's) DualSnapStore \<Rightarrow> Snapshot \<Rightarrow> (ReadCloser option \<times> error) \<times> ('p, 's) DualSnapStore" where
  "Fetch_in_flight ds snap =
     (let ((rc, err), ds') = primary_Fetch ds snap in
      if err = None
      then ((rc, None), resetPrimaryFailureState ds')
      else Fetch_secondary (recordPrimaryFailure ds' err) snap)"

definition Save_in_flight ::
  "('p, 's) DualSnapStore \<Rightarrow> Snapshot \<Rightarrow> byte list \<Rightarrow> error \<times> ('p, 's) DualSnapStore" where
  "Save_in_flight ds snap data =
     (let (err, ds') = primary_Save ds snap (NopCloser data) in
      if err \<noteq> None
      then Save_secondary (recordPrimaryFailure ds' err) snap data err
      else (None, resetPrimaryFailureState ds'))"

text \<open>
  A backend for concrete runs that answers its first three calls with a DNS error and
  every later call with success, a dual store with it as primary, and that store after
  three calls of \<open>Fetch\<close>.
\<close>

definition recoveringStore :: "nat SnapStore" where
  "recoveringStore =
     \<lparr>Fetch_m = (\<lambda>n snap. (if n < 3 then (None, errNoHost) else (Some (NopCloser []), None), Suc n)),
      List_m = (\<lambda>n includeAll. (([], if n < 3 then errNoHost else None), Suc n)),
      Save_m = (\<lambda>n snap rc. (if n < 3 then errNoHost else None, Suc n)),
      Delete_m = (\<lambda>n snap. (if n < 3 then errNoHost else None, Suc n)),
      self = 0\<rparr>"

definition dsRecovering :: "(nat, nat) DualSnapStore" where
  "dsRecovering = NewDualSnapStore recoveringStore (spyStore None [])"

definition dsOvertaken :: "(nat, nat) DualSnapStore" where
  "dsOvertaken = run byRevision [OpFetch snapA, OpFetch snapA, OpFetch snapA] dsRecovering"

section \<open>The configuration after a resolver\<close>




section \<open>Verification\<close>

subsection \<open>Save and Fetch\<close>

lemma isTransientError_errNoHost: "isTransientError errNoHost"
  by (simp add: isTransientError_def errNoHost_def Errorf_def)

lemma not_isTransientError_errDenied: "\<not> isTransientError errDenied"
  by (simp add: isTransientError_def errDenied_def Errorf_def)

lemma dsHealthy_enabled: "\<not> isPrimaryDisabled dsHealthy"
  by (simp add: dsHealthy_def NewDualSnapStore_def isPrimaryDisabled_def)

text \<open>
  When both endpoints fail, \<open>Save\<close> puts the text of both errors into its message,
  whatever the two errors are.
\<close>

lemma Save_both_fail_text:
  assumes "failure rc = None" and "\<not> isPrimaryDisabled ds"
    and "primary_Save ds snap (NopCloser (content rc)) = (Some e1, ds1)"
    and "secondary_Save (recordPrimaryFailure ds1 (Some e1)) snap (NopCloser (content rc)) = (Some e2, ds2)"
  shows "fst (Save ds snap rc) =
           Errorf (''failed to save snapshot '' @ SnapName snap @
                   '' to both endpoints - Primary: '' @ ErrorText e1 @
                   '', Secondary: '' @ ErrorText e2)"
  using assms by (simp add: Save_def ReadAll_def Save_secondary_def fmtV_def)

text \<open>
  \<open>Fetch\<close> in the same situation prints the fixed text \<open>disabled due to failures\<close>
  in the place of the primary's error: the message does not depend on \<open>e1\<close>.
\<close>

lemma Fetch_both_fail_text:
  assumes "\<not> isPrimaryDisabled ds"
    and "primary_Fetch ds snap = ((rc1, Some e1), ds1)"
    and "secondary_Fetch (recordPrimaryFailure ds1 (Some e1)) snap = ((rc2, Some e2), ds2)"
  shows "fst (Fetch ds snap) =
           (None, Errorf (''failed to fetch snapshot '' @ SnapName snap @
                          '' from both endpoints - Primary: disabled due to failures'' @
                          '', Secondary: '' @ ErrorText e2))"
  using assms by (simp add: Fetch_def Fetch_secondary_def fmtV_def Errorf_def)

text \<open>
  Claim C1 (the error of a \<open>Fetch\<close> that failed on both endpoints embeds both causes)
  fails on the code. Run on a new dual store whose primary answers every call with
  \<open>AccessDenied: access denied\<close> and whose secondary answers with a DNS error:
  the primary is enabled and is invoked, both calls fail, and the error \<open>Fetch\<close> returns
  holds the secondary's text but not the primary's.
\<close>

theorem Fetch_both_fail_drops_primary_cause:
  "\<not> isPrimaryDisabled (NewDualSnapStore (spyStore errDenied []) (spyStore errNoHost [])) \<and>
   calls (snd (Fetch (NewDualSnapStore (spyStore errDenied []) (spyStore errNoHost [])) snapA)) =
     [(PrimaryEP, MFetch, errDenied), (SecondaryEP, MFetch, errNoHost)] \<and>
   fst (Fetch (NewDualSnapStore (spyStore errDenied []) (spyStore errNoHost [])) snapA) =
     (None, Errorf ''failed to fetch snapshot X from both endpoints - Primary: disabled due to failures, Secondary: dial tcp: lookup backup.example: no such host'') \<and>
   Contains ''failed to fetch snapshot X from both endpoints - Primary: disabled due to failures, Secondary: dial tcp: lookup backup.example: no such host''
     (fmtV errNoHost) \<and>
   \<not> Contains ''failed to fetch snapshot X from both endpoints - Primary: disabled due to failures, Secondary: dial tcp: lookup backup.example: no such host''
     (fmtV errDenied)"
  by (simp add: Fetch_def Fetch_secondary_def NewDualSnapStore_def spyStore_def errDenied_def
      errNoHost_def snapA_def isPrimaryDisabled_def primary_Fetch_def secondary_Fetch_def
      callFetch_def recordPrimaryFailure_def fmtV_def Errorf_def)

text \<open>
  Claim C6: for every snapshot and every content that can be read, if the primary is not
  disabled and \<open>primary.Save\<close> succeeds, then \<open>Save\<close> returns no error, the only
  backend call it makes is the primary's \<open>Save\<close> (the secondary is not invoked and is
  left as it was), and the circuit breaker is reset (flag off, counter zero).
\<close>

theorem Save_primary_success:
  assumes "failure rc = None" and "\<not> isPrimaryDisabled ds"
    and "fst (callSave (primary ds) snap (NopCloser (content rc))) = None"
  shows "fst (Save ds snap rc) = None \<and>
         invoked ds (snd (Save ds snap rc)) = [(PrimaryEP, MSave, None)] \<and>
         secondary (snd (Save ds snap rc)) = secondary ds \<and>
         primaryFailed (snd (Save ds snap rc)) = False \<and>
         primaryFailCount (snd (Save ds snap rc)) = 0"
  using assms
  by (auto simp: Save_def ReadAll_def primary_Save_def resetPrimaryFailureState_def invoked_def
      split: prod.splits)

theorem Save_primary_success_witness:
  "failure rcGood = None \<and> \<not> isPrimaryDisabled dsHealthy \<and>
   fst (callSave (primary dsHealthy) snapA (NopCloser (content rcGood))) = None \<and>
   fst (Save dsHealthy snapA rcGood) = None \<and>
   invoked dsHealthy (snd (Save dsHealthy snapA rcGood)) = [(PrimaryEP, MSave, None)] \<and>
   self (secondary (snd (Save dsHealthy snapA rcGood))) = 0 \<and>
   primaryFailCount (snd (Save dsHealthy snapA rcGood)) = 0"
proof -
  have h1: "failure rcGood = None" by (simp add: rcGood_def)
  have h2: "\<not> isPrimaryDisabled dsHealthy" by (rule dsHealthy_enabled)
  have h3: "fst (callSave (primary dsHealthy) snapA (NopCloser (content rcGood))) = None"
    by (simp add: dsHealthy_def NewDualSnapStore_def callSave_def spyStore_def)
  have h4: "self (secondary dsHealthy) = 0"
    by (simp add: dsHealthy_def NewDualSnapStore_def spyStore_def)
  show ?thesis using h1 h2 h3 h4 Save_primary_success [OF h1 h2 h3] by simp
qed

text \<open>
  Claim C10: for every snapshot, if reading the content stream fails, \<open>Save\<close> returns
  an error at once and the dual store is exactly as before: no backend was invoked
  (backends and call list unchanged) and the disabled flag and the failure counter
  are unchanged.
\<close>

theorem Save_read_failure:
  "failure rc \<noteq> None \<Longrightarrow>
     fst (Save ds snap rc) = Errorf (''failed to read snapshot data: '' @ fmtV (failure rc)) \<and>
     fst (Save ds snap rc) \<noteq> None \<and>
     snd (Save ds snap rc) = ds \<and>
     invoked ds (snd (Save ds snap rc)) = []"
  by (simp add: Save_def ReadAll_def invoked_def Errorf_def)

theorem Save_read_failure_witness:
  "failure rcBroken \<noteq> None \<and>
   fst (Save dsHealthy snapA rcBroken) =
     Errorf ''failed to read snapshot data: read pipe: unexpected EOF'' \<and>
   snd (Save dsHealthy snapA rcBroken) = dsHealthy"
proof -
  have h: "failure rcBroken \<noteq> None" by (simp add: rcBroken_def errIO_def Errorf_def)
  have t: "fmtV (failure rcBroken) = ''read pipe: unexpected EOF''"
    by (simp add: rcBroken_def errIO_def Errorf_def fmtV_def)
  show ?thesis using h t Save_read_failure [OF h, of dsHealthy snapA] by simp
qed

subsection \<open>The circuit breaker\<close>

text \<open>
  What each operation does to the breaker fields and which backend calls it adds. A call
  of \<open>Save\<close> or \<open>Fetch\<close> has one of three shapes: the primary is disabled and only
  the secondary is invoked; the primary is invoked and succeeds (reset); the primary is
  invoked and fails, the failure is recorded and the secondary is invoked.
\<close>

lemma Fetch_secondary_frame:
  "primary (snd (Fetch_secondary ds snap)) = primary ds \<and>
   breaker (snd (Fetch_secondary ds snap)) = breaker ds \<and>
   (\<exists>e. calls (snd (Fetch_secondary ds snap)) = calls ds @ [(SecondaryEP, MFetch, e)])"
  by (auto simp: Fetch_secondary_def secondary_Fetch_def breaker_def split: prod.splits)

lemma Save_secondary_frame:
  "primary (snd (Save_secondary ds snap data e1)) = primary ds \<and>
   breaker (snd (Save_secondary ds snap data e1)) = breaker ds \<and>
   (\<exists>e. calls (snd (Save_secondary ds snap data e1)) = calls ds @ [(SecondaryEP, MSave, e)])"
  by (auto simp: Save_secondary_def secondary_Save_def breaker_def split: prod.splits)

lemma primary_Fetch_frame:
  "breaker (snd (primary_Fetch ds snap)) = breaker ds \<and>
   calls (snd (primary_Fetch ds snap)) = calls ds @ [(PrimaryEP, MFetch, snd (fst (primary_Fetch ds snap)))]"
  by (auto simp: primary_Fetch_def breaker_def split: prod.splits)

lemma primary_Save_frame:
  "breaker (snd (primary_Save ds snap rc)) = breaker ds \<and>
   calls (snd (primary_Save ds snap rc)) = calls ds @ [(PrimaryEP, MSave, fst (primary_Save ds snap rc))]"
  by (auto simp: primary_Save_def breaker_def split: prod.splits)

lemma recordPrimaryFailure_frame:
  "calls (recordPrimaryFailure ds e) = calls ds \<and> primary (recordPrimaryFailure ds e) = primary ds
   \<and> secondary (recordPrimaryFailure ds e) = secondary ds"
  by (simp add: recordPrimaryFailure_def)

lemma resetPrimaryFailureState_frame:
  "calls (resetPrimaryFailureState ds) = calls ds \<and> breaker (resetPrimaryFailureState ds) = (False, 0)"
  by (simp add: resetPrimaryFailureState_def breaker_def)

lemma breaker_recordPrimaryFailure:
  "breaker (recordPrimaryFailure ds e) =
     (if isTransientError e then (True, snd (breaker ds) + 1) else (fst (breaker ds), 0))"
  by (simp add: recordPrimaryFailure_def breaker_def)

lemma isPrimaryDisabled_breaker:
  "isPrimaryDisabled ds = (fst (breaker ds) \<and> 3 \<le> snd (breaker ds))"
  by (simp add: isPrimaryDisabled_def breaker_def)


lemma Fetch_cases:
  "(isPrimaryDisabled ds \<and> breaker (snd (Fetch ds snap)) = breaker ds \<and>
      primary (snd (Fetch ds snap)) = primary ds \<and>
      (\<exists>e. calls (snd (Fetch ds snap)) = calls ds @ [(SecondaryEP, MFetch, e)])) \<or>
   (\<not> isPrimaryDisabled ds \<and> breaker (snd (Fetch ds snap)) = (False, 0) \<and>
      calls (snd (Fetch ds snap)) = calls ds @ [(PrimaryEP, MFetch, None)]) \<or>
   (\<not> isPrimaryDisabled ds \<and>
      (\<exists>e1 e. e1 \<noteq> None \<and> breaker (snd (Fetch ds snap)) = breaker (recordPrimaryFailure ds e1) \<and>
         calls (snd (Fetch ds snap)) = calls ds @ [(PrimaryEP, MFetch, e1), (SecondaryEP, MFetch, e)]))"
proof (cases "isPrimaryDisabled ds")
  case True
  then have "Fetch ds snap = Fetch_secondary ds snap" by (simp add: Fetch_def)
  with True Fetch_secondary_frame [of ds snap] show ?thesis by simp
next
  case False
  obtain rc e1 ds1 where p: "primary_Fetch ds snap = ((rc, e1), ds1)"
    by (metis surj_pair)
  from primary_Fetch_frame [of ds snap] p
  have f: "breaker ds1 = breaker ds" "calls ds1 = calls ds @ [(PrimaryEP, MFetch, e1)]" by simp_all
  show ?thesis
  proof (cases e1)
    case None
    with False p f show ?thesis
      by (simp add: Fetch_def resetPrimaryFailureState_frame)
  next
    case (Some v)
    have b: "breaker (recordPrimaryFailure ds1 e1) = breaker (recordPrimaryFailure ds e1)"
      using f by (simp add: breaker_recordPrimaryFailure)
    from Some False p have "Fetch ds snap = Fetch_secondary (recordPrimaryFailure ds1 e1) snap"
      by (simp add: Fetch_def)
    with Fetch_secondary_frame [of "recordPrimaryFailure ds1 e1" snap] f b Some False
    show ?thesis by (auto simp: recordPrimaryFailure_frame)
  qed
qed

lemma Save_cases:
  "(failure rc \<noteq> None \<and> snd (Save ds snap rc) = ds) \<or>
   (isPrimaryDisabled ds \<and> breaker (snd (Save ds snap rc)) = breaker ds \<and>
      primary (snd (Save ds snap rc)) = primary ds \<and>
      (\<exists>e. calls (snd (Save ds snap rc)) = calls ds @ [(SecondaryEP, MSave, e)])) \<or>
   (\<not> isPrimaryDisabled ds \<and> breaker (snd (Save ds snap rc)) = (False, 0) \<and>
      calls (snd (Save ds snap rc)) = calls ds @ [(PrimaryEP, MSave, None)]) \<or>
   (\<not> isPrimaryDisabled ds \<and>
      (\<exists>e1 e. e1 \<noteq> None \<and> breaker (snd (Save ds snap rc)) = breaker (recordPrimaryFailure ds e1) \<and>
         calls (snd (Save ds snap rc)) = calls ds @ [(PrimaryEP, MSave, e1), (SecondaryEP, MSave, e)]))"
proof (cases "failure rc \<noteq> None")
  case True
  then show ?thesis by (simp add: Save_def ReadAll_def)
next
  case ok: False
  show ?thesis
  proof (cases "isPrimaryDisabled ds")
    case True
    with ok have "Save ds snap rc = Save_secondary ds snap (content rc)
             (Errorf ''primary endpoint disabled due to repeated failures'')"
      by (simp add: Save_def ReadAll_def)
    with True Save_secondary_frame [of ds snap "content rc"] show ?thesis by simp
  next
    case False
    obtain e1 ds1 where p: "primary_Save ds snap (NopCloser (content rc)) = (e1, ds1)"
      by (metis surj_pair)
    from primary_Save_frame [of ds snap "NopCloser (content rc)"] p
    have f: "breaker ds1 = breaker ds" "calls ds1 = calls ds @ [(PrimaryEP, MSave, e1)]" by simp_all
    show ?thesis
    proof (cases e1)
      case None
      with False ok p f show ?thesis
        by (simp add: Save_def ReadAll_def resetPrimaryFailureState_frame)
    next
      case (Some v)
      have b: "breaker (recordPrimaryFailure ds1 e1) = breaker (recordPrimaryFailure ds e1)"
        using f by (simp add: breaker_recordPrimaryFailure)
      from Some False ok p
      have "Save ds snap rc = Save_secondary (recordPrimaryFailure ds1 e1) snap (content rc) e1"
        by (simp add: Save_def ReadAll_def)
      with Save_secondary_frame [of "recordPrimaryFailure ds1 e1" snap "content rc" e1] f b Some False
      show ?thesis by (auto simp: recordPrimaryFailure_frame)
    qed
  qed
qed

lemma List_frame:
  "breaker (snd (List lt ds includeAll pickP pickS iter)) = breaker ds \<and>
   (\<exists>e1 e2. calls (snd (List lt ds includeAll pickP pickS iter)) =
       calls ds @ [(PrimaryEP, MList, e1), (SecondaryEP, MList, e2)])"
  by (auto simp: List_def primary_List_def secondary_List_def breaker_def Let_def split: prod.splits)

lemma Delete_frame:
  "breaker (snd (Delete ds snap)) = breaker ds \<and>
   (\<exists>e1 e2. calls (snd (Delete ds snap)) =
       calls ds @ [(PrimaryEP, MDelete, e1), (SecondaryEP, MDelete, e2)])"
  by (auto simp: Delete_def primary_Delete_def secondary_Delete_def breaker_def Let_def split: prod.splits)

lemma drop_prefix: "xs = a @ b \<Longrightarrow> drop (length a) xs = b"
  by simp

lemma isTransientError_not_nil: "isTransientError e \<Longrightarrow> e \<noteq> None"
  by (cases e) (simp_all add: isTransientError_def)

lemma step_extends: "calls (step lt op ds) = calls ds @ invoked ds (step lt op ds)"
proof (cases op)
  case (OpSave snap rc)
  with Save_cases [of rc ds snap] show ?thesis by (auto simp: invoked_def)
next
  case (OpFetch snap)
  with Fetch_cases [of ds snap] show ?thesis by (auto simp: invoked_def)
next
  case (OpList includeAll pickP pickS iter)
  with List_frame [of lt ds includeAll pickP pickS iter] show ?thesis by (auto simp: invoked_def)
next
  case (OpDelete snap)
  with Delete_frame [of ds snap] show ?thesis by (auto simp: invoked_def)
qed

lemma step_disabled:
  assumes "isPrimaryDisabled ds"
  shows "breaker (step lt op ds) = breaker ds \<and>
         (isSaveOrFetch op \<longrightarrow> primary (step lt op ds) = primary ds) \<and>
         (\<forall>c \<in> set (invoked ds (step lt op ds)). isSaveOrFetch op \<longrightarrow> fst c \<noteq> PrimaryEP) \<and>
         (\<forall>c \<in> set (invoked ds (step lt op ds)).
            \<not> (fst c = PrimaryEP \<and> fst (snd c) \<in> {MSave, MFetch}))"
proof (cases op)
  case (OpSave snap rc)
  with assms Save_cases [of rc ds snap] show ?thesis by (auto simp: invoked_def)
next
  case (OpFetch snap)
  with assms Fetch_cases [of ds snap] show ?thesis by (auto simp: invoked_def)
next
  case (OpList includeAll pickP pickS iter)
  with List_frame [of lt ds includeAll pickP pickS iter] show ?thesis by (auto simp: invoked_def)
next
  case (OpDelete snap)
  with Delete_frame [of ds snap] show ?thesis by (auto simp: invoked_def)
qed

lemma step_primary_invoked:
  assumes "isSaveOrFetch op" and "(PrimaryEP, m, e) \<in> set (invoked ds (step lt op ds))"
  shows "\<not> isPrimaryDisabled ds \<and>
         breaker (step lt op ds) = (if e = None then (False, 0) else breaker (recordPrimaryFailure ds e))"
proof (cases op)
  case (OpSave snap rc)
  with assms Save_cases [of rc ds snap] show ?thesis by (auto simp: invoked_def)
next
  case (OpFetch snap)
  with assms Fetch_cases [of ds snap] show ?thesis by (auto simp: invoked_def)
next
  case (OpList includeAll pickP pickS iter)
  with assms show ?thesis by simp
next
  case (OpDelete snap)
  with assms show ?thesis by simp
qed

lemma breakerInv_step: "breakerInv ds \<Longrightarrow> breakerInv (step lt op ds)"
proof (cases op)
  case (OpSave snap rc)
  assume "breakerInv ds"
  with OpSave Save_cases [of rc ds snap] show ?thesis
    by (auto simp: breakerInv_def breaker_def isPrimaryDisabled_def recordPrimaryFailure_def split: if_splits)
next
  case (OpFetch snap)
  assume "breakerInv ds"
  with OpFetch Fetch_cases [of ds snap] show ?thesis
    by (auto simp: breakerInv_def breaker_def isPrimaryDisabled_def recordPrimaryFailure_def split: if_splits)
next
  case (OpList includeAll pickP pickS iter)
  assume "breakerInv ds"
  with OpList List_frame [of lt ds includeAll pickP pickS iter] show ?thesis
    by (auto simp: breakerInv_def breaker_def)
next
  case (OpDelete snap)
  assume "breakerInv ds"
  with OpDelete Delete_frame [of ds snap] show ?thesis
    by (auto simp: breakerInv_def breaker_def)
qed

lemma breakerInv_run: "breakerInv ds \<Longrightarrow> breakerInv (run lt ops ds)"
  unfolding run_def by (induction ops arbitrary: ds) (simp_all add: breakerInv_step)

lemma breakerInv_New: "breakerInv (NewDualSnapStore p s)"
  by (simp add: breakerInv_def NewDualSnapStore_def)

text \<open>
  The counter of a dual store made by \<open>NewDualSnapStore\<close> stays between 0 and 3 whatever
  is done with the store, so the Go \<open>int\<close> never overflows.
\<close>

lemma reachable_count_bounds:
  "0 \<le> primaryFailCount (run lt ops (NewDualSnapStore p s)) \<and>
   primaryFailCount (run lt ops (NewDualSnapStore p s)) \<le> 3"
  using breakerInv_run [OF breakerInv_New, of lt ops p s] by (simp add: breakerInv_def)

lemma run_extends: "calls (run lt ops ds) = calls ds @ invoked ds (run lt ops ds)"
proof (induction ops arbitrary: ds)
  case Nil
  then show ?case by (simp add: run_def invoked_def)
next
  case (Cons op ops)
  have r: "run lt (op # ops) ds = run lt ops (step lt op ds)" by (simp add: run_def)
  from Cons.IH [of "step lt op ds"] step_extends [of lt op ds]
  have "calls (run lt ops (step lt op ds)) =
          calls ds @ invoked ds (step lt op ds) @ invoked (step lt op ds) (run lt ops (step lt op ds))"
    by simp
  from drop_prefix [OF this] have "invoked ds (run lt ops (step lt op ds)) =
      invoked ds (step lt op ds) @ invoked (step lt op ds) (run lt ops (step lt op ds))"
    by (simp add: invoked_def)
  with Cons.IH [of "step lt op ds"] step_extends [of lt op ds]
  show ?case unfolding r by simp
qed

lemma invoked_run_Cons:
  "invoked ds (run lt (op # ops) ds) =
     invoked ds (step lt op ds) @ invoked (step lt op ds) (run lt ops (step lt op ds))"
proof -
  have r: "run lt (op # ops) ds = run lt ops (step lt op ds)" by (simp add: run_def)
  from run_extends [of lt ops "step lt op ds"] step_extends [of lt op ds]
  have "calls (run lt ops (step lt op ds)) =
          calls ds @ invoked ds (step lt op ds) @ invoked (step lt op ds) (run lt ops (step lt op ds))"
    by simp
  from drop_prefix [OF this] show ?thesis unfolding r by (simp add: invoked_def)
qed

lemma run_disabled:
  "isPrimaryDisabled ds \<Longrightarrow>
     breaker (run lt ops ds) = breaker ds \<and>
     (\<forall>c \<in> set (invoked ds (run lt ops ds)).
        \<not> (fst c = PrimaryEP \<and> fst (snd c) \<in> {MSave, MFetch}))"
proof (induction ops arbitrary: ds)
  case Nil
  then show ?case by (simp add: run_def invoked_def)
next
  case (Cons op ops)
  from step_disabled [OF Cons.prems, of lt op]
  have s: "breaker (step lt op ds) = breaker ds"
      "\<forall>c \<in> set (invoked ds (step lt op ds)). \<not> (fst c = PrimaryEP \<and> fst (snd c) \<in> {MSave, MFetch})"
    by blast+
  from s(1) Cons.prems have d: "isPrimaryDisabled (step lt op ds)"
    by (simp add: isPrimaryDisabled_breaker)
  from Cons.IH [OF d]
  have r: "breaker (run lt ops (step lt op ds)) = breaker (step lt op ds)"
      "\<forall>c \<in> set (invoked (step lt op ds) (run lt ops (step lt op ds))).
          \<not> (fst c = PrimaryEP \<and> fst (snd c) \<in> {MSave, MFetch})"
    by blast+
  have e: "run lt (op # ops) ds = run lt ops (step lt op ds)" by (simp add: run_def)
  from s r show ?case unfolding invoked_run_Cons by (auto simp: e)
qed

text \<open>
  Claim C3, amended: for every dual store and every sequence of \<open>Save\<close>, \<open>Fetch\<close>,
  \<open>List\<close> and \<open>Delete\<close> calls that do not overlap (each call returns before the next
  one starts), once the primary is disabled it stays disabled: after the sequence
  \<open>isPrimaryDisabled\<close> still holds, the flag and the counter are what they were, and
  none of the backend calls made in the sequence is a \<open>Save\<close> or \<open>Fetch\<close> on the primary
  (so no primary success can reach \<open>resetPrimaryFailureState\<close>). A call that passed its
  disable check before the primary was disabled is not part of such a sequence; it is
  treated with the overlapping calls below.
\<close>

theorem disabled_forever:
  assumes "isPrimaryDisabled ds"
  shows "isPrimaryDisabled (run lt ops ds) \<and>
         primaryFailed (run lt ops ds) = primaryFailed ds \<and>
         primaryFailCount (run lt ops ds) = primaryFailCount ds \<and>
         (\<forall>c \<in> set (invoked ds (run lt ops ds)).
            \<not> (fst c = PrimaryEP \<and> fst (snd c) \<in> {MSave, MFetch}))"
  using run_disabled [OF assms, of lt ops] assms
  by (auto simp: isPrimaryDisabled_breaker breaker_def)

lemma transient_failure_counts:
  assumes "isSaveOrFetch op" and "(PrimaryEP, m, e) \<in> set (invoked ds (step lt op ds))"
    and "isTransientError e"
  shows "breaker (step lt op ds) = (True, primaryFailCount ds + 1)"
  using step_primary_invoked [OF assms(1,2)] isTransientError_not_nil [OF assms(3)] assms(3)
  by (simp add: recordPrimaryFailure_def breaker_def)

lemma breaker_trips:
  assumes "ds0 = run lt ops (NewDualSnapStore p s)"
    and "isSaveOrFetch o1" and "(PrimaryEP, m1, e1) \<in> set (invoked ds0 (step lt o1 ds0))"
    and "isTransientError e1" and "ds1 = step lt o1 ds0"
    and "isSaveOrFetch o2" and "(PrimaryEP, m2, e2) \<in> set (invoked ds1 (step lt o2 ds1))"
    and "isTransientError e2" and "ds2 = step lt o2 ds1"
    and "isSaveOrFetch o3" and "(PrimaryEP, m3, e3) \<in> set (invoked ds2 (step lt o3 ds2))"
    and "isTransientError e3" and "ds3 = step lt o3 ds2"
    and "isSaveOrFetch o4"
  shows "isPrimaryDisabled ds3 \<and> primary (step lt o4 ds3) = primary ds3 \<and>
        (\<forall>c \<in> set (invoked ds3 (step lt o4 ds3)). fst c \<noteq> PrimaryEP)"
proof -
  have c0: "0 \<le> primaryFailCount ds0"
    using reachable_count_bounds [of lt ops p s] assms(1) by simp
  have b1: "breaker ds1 = (True, primaryFailCount ds0 + 1)"
    unfolding assms(5) by (rule transient_failure_counts [OF assms(2,3,4)])
  have b2: "breaker ds2 = (True, primaryFailCount ds1 + 1)"
    unfolding assms(9) by (rule transient_failure_counts [OF assms(6,7,8)])
  have b3: "breaker ds3 = (True, primaryFailCount ds2 + 1)"
    unfolding assms(13) by (rule transient_failure_counts [OF assms(10,11,12)])
  have d: "isPrimaryDisabled ds3"
    using c0 b1 b2 b3 by (simp add: isPrimaryDisabled_def breaker_def)
  from step_disabled [OF d, of lt o4] assms(14) d show ?thesis by blast
qed

lemma fatal_failure_resets:
  assumes "isSaveOrFetch op" and "(PrimaryEP, m, e) \<in> set (invoked ds (step lt op ds))"
    and "e \<noteq> None" and "\<not> isTransientError e"
  shows "primaryFailCount (step lt op ds) = 0 \<and> \<not> isPrimaryDisabled (step lt op ds)"
proof -
  from step_primary_invoked [OF assms(1,2)] assms(3)
  have "breaker (step lt op ds) = breaker (recordPrimaryFailure ds e)" by simp
  with assms(4) have "primaryFailCount (step lt op ds) = 0"
    by (simp add: recordPrimaryFailure_def breaker_def)
  then show ?thesis by (simp add: isPrimaryDisabled_def)
qed

text \<open>
  Claim C2: take a dual store made by \<open>NewDualSnapStore\<close> and used in any way. If three
  consecutive operations, each a \<open>Save\<close> or a \<open>Fetch\<close>, each invoke the primary and
  get a transient-classified error from it, then the primary is disabled, and a next
  \<open>Save\<close> or \<open>Fetch\<close> leaves the primary backend untouched and invokes nothing on
  it. And whenever a \<open>Save\<close> or \<open>Fetch\<close> gets a non-transient error from the primary,
  the failure counter is zero afterwards and the primary is not disabled.
\<close>

theorem circuit_breaker:
  "(ds0 = run lt ops (NewDualSnapStore p s) \<and>
    isSaveOrFetch o1 \<and> (PrimaryEP, m1, e1) \<in> set (invoked ds0 (step lt o1 ds0)) \<and>
    isTransientError e1 \<and> ds1 = step lt o1 ds0 \<and>
    isSaveOrFetch o2 \<and> (PrimaryEP, m2, e2) \<in> set (invoked ds1 (step lt o2 ds1)) \<and>
    isTransientError e2 \<and> ds2 = step lt o2 ds1 \<and>
    isSaveOrFetch o3 \<and> (PrimaryEP, m3, e3) \<in> set (invoked ds2 (step lt o3 ds2)) \<and>
    isTransientError e3 \<and> ds3 = step lt o3 ds2 \<and>
    isSaveOrFetch o4
    \<longrightarrow> isPrimaryDisabled ds3 \<and> primary (step lt o4 ds3) = primary ds3 \<and>
        (\<forall>c \<in> set (invoked ds3 (step lt o4 ds3)). fst c \<noteq> PrimaryEP)) \<and>
   (isSaveOrFetch op \<and> (PrimaryEP, m, e) \<in> set (invoked ds (step lt op ds)) \<and>
    e \<noteq> None \<and> \<not> isTransientError e
    \<longrightarrow> primaryFailCount (step lt op ds) = 0 \<and> \<not> isPrimaryDisabled (step lt op ds))"
proof (rule conjI; rule impI)
  assume "isSaveOrFetch op \<and> (PrimaryEP, m, e) \<in> set (invoked ds (step lt op ds)) \<and>
    e \<noteq> None \<and> \<not> isTransientError e"
  then show "primaryFailCount (step lt op ds) = 0 \<and> \<not> isPrimaryDisabled (step lt op ds)"
    using fatal_failure_resets [of op m e ds lt] by blast
next
  assume a: "ds0 = run lt ops (NewDualSnapStore p s) \<and>
    isSaveOrFetch o1 \<and> (PrimaryEP, m1, e1) \<in> set (invoked ds0 (step lt o1 ds0)) \<and>
    isTransientError e1 \<and> ds1 = step lt o1 ds0 \<and>
    isSaveOrFetch o2 \<and> (PrimaryEP, m2, e2) \<in> set (invoked ds1 (step lt o2 ds1)) \<and>
    isTransientError e2 \<and> ds2 = step lt o2 ds1 \<and>
    isSaveOrFetch o3 \<and> (PrimaryEP, m3, e3) \<in> set (invoked ds2 (step lt o3 ds2)) \<and>
    isTransientError e3 \<and> ds3 = step lt o3 ds2 \<and>
    isSaveOrFetch o4"
  show "isPrimaryDisabled ds3 \<and> primary (step lt o4 ds3) = primary ds3 \<and>
        (\<forall>c \<in> set (invoked ds3 (step lt o4 ds3)). fst c \<noteq> PrimaryEP)"
    by (rule breaker_trips [of ds0 lt ops p s o1 m1 e1 ds1 o2 m2 e2 ds2 o3 m3 e3 ds3 o4])
       (use a in blast)+
qed

lemma errNoHost_not_nil: "errNoHost \<noteq> None" by (simp add: errNoHost_def Errorf_def)

lemma errDenied_not_nil: "errDenied \<noteq> None" by (simp add: errDenied_def Errorf_def)

lemmas run_simps = Fetch_def Fetch_secondary_def primary_Fetch_def secondary_Fetch_def callFetch_def
  recordPrimaryFailure_def resetPrimaryFailureState_def isPrimaryDisabled_def NewDualSnapStore_def
  spyStore_def invoked_def isTransientError_errNoHost not_isTransientError_errDenied
  errNoHost_not_nil errDenied_not_nil

lemma flaky1: "step lt (OpFetch snapA) dsFlaky =
  \<lparr>primary = (spyStore errNoHost [])\<lparr>self := 1\<rparr>, secondary = (spyStore None [])\<lparr>self := 1\<rparr>,
   primaryFailed = True, primaryFailCount = 1,
   calls = [(PrimaryEP, MFetch, errNoHost), (SecondaryEP, MFetch, None)]\<rparr>"
  by (simp add: dsFlaky_def run_simps)

lemma flaky3: "run lt [OpFetch snapA, OpFetch snapA, OpFetch snapA] dsFlaky =
  \<lparr>primary = (spyStore errNoHost [])\<lparr>self := 3\<rparr>, secondary = (spyStore None [])\<lparr>self := 3\<rparr>,
   primaryFailed = True, primaryFailCount = 3,
   calls = [(PrimaryEP, MFetch, errNoHost), (SecondaryEP, MFetch, None),
            (PrimaryEP, MFetch, errNoHost), (SecondaryEP, MFetch, None),
            (PrimaryEP, MFetch, errNoHost), (SecondaryEP, MFetch, None)]\<rparr>"
  by (simp add: run_def dsFlaky_def run_simps)

lemma flaky4: "run lt [OpFetch snapA, OpFetch snapA, OpFetch snapA, OpFetch snapA] dsFlaky =
  \<lparr>primary = (spyStore errNoHost [])\<lparr>self := 3\<rparr>, secondary = (spyStore None [])\<lparr>self := 4\<rparr>,
   primaryFailed = True, primaryFailCount = 3,
   calls = [(PrimaryEP, MFetch, errNoHost), (SecondaryEP, MFetch, None),
            (PrimaryEP, MFetch, errNoHost), (SecondaryEP, MFetch, None),
            (PrimaryEP, MFetch, errNoHost), (SecondaryEP, MFetch, None), (SecondaryEP, MFetch, None)]\<rparr>"
  by (simp add: run_def dsFlaky_def run_simps)

lemma dsFlaky_reachable: "dsFlaky = run byRevision [] (NewDualSnapStore (spyStore errNoHost []) (spyStore None []))"
  by (simp add: dsFlaky_def run_def)

lemma dsFlaky1_eq: "dsFlaky1 =
  \<lparr>primary = (spyStore errNoHost [])\<lparr>self := 1\<rparr>, secondary = (spyStore None [])\<lparr>self := 1\<rparr>,
   primaryFailed = True, primaryFailCount = 1,
   calls = [(PrimaryEP, MFetch, errNoHost), (SecondaryEP, MFetch, None)]\<rparr>"
  by (simp add: dsFlaky1_def dsFlaky_def run_simps)

lemma dsFlaky2_eq: "dsFlaky2 =
  \<lparr>primary = (spyStore errNoHost [])\<lparr>self := 2\<rparr>, secondary = (spyStore None [])\<lparr>self := 2\<rparr>,
   primaryFailed = True, primaryFailCount = 2,
   calls = [(PrimaryEP, MFetch, errNoHost), (SecondaryEP, MFetch, None),
            (PrimaryEP, MFetch, errNoHost), (SecondaryEP, MFetch, None)]\<rparr>"
  by (simp add: dsFlaky2_def dsFlaky1_eq run_simps)

lemma dsTripped_eq: "dsTripped =
  \<lparr>primary = (spyStore errNoHost [])\<lparr>self := 3\<rparr>, secondary = (spyStore None [])\<lparr>self := 3\<rparr>,
   primaryFailed = True, primaryFailCount = 3,
   calls = [(PrimaryEP, MFetch, errNoHost), (SecondaryEP, MFetch, None),
            (PrimaryEP, MFetch, errNoHost), (SecondaryEP, MFetch, None),
            (PrimaryEP, MFetch, errNoHost), (SecondaryEP, MFetch, None)]\<rparr>"
  by (simp add: dsTripped_def dsFlaky2_eq run_simps)

lemma dsFlaky_invoked:
  "(PrimaryEP, MFetch, errNoHost) \<in> set (invoked dsFlaky (step byRevision (OpFetch snapA) dsFlaky))"
  "(PrimaryEP, MFetch, errNoHost) \<in> set (invoked dsFlaky1 (step byRevision (OpFetch snapA) dsFlaky1))"
  "(PrimaryEP, MFetch, errNoHost) \<in> set (invoked dsFlaky2 (step byRevision (OpFetch snapA) dsFlaky2))"
  by (simp_all add: dsFlaky1_eq dsFlaky2_eq dsFlaky_def run_simps)

lemma dsDenied_invoked:
  "(PrimaryEP, MFetch, errDenied) \<in> set (invoked dsDenied (step byRevision (OpFetch snapA) dsDenied))"
  by (simp add: dsDenied_def run_simps)

lemma dsTripped_next: "self (primary dsTripped) = 3"
  by (simp add: dsTripped_eq)

theorem circuit_breaker_witness:
  "isPrimaryDisabled dsTripped \<and>
   self (primary (step byRevision (OpFetch snapA) dsTripped)) = 3 \<and>
   (PrimaryEP, MFetch, errNoHost) \<notin> set (invoked dsTripped (step byRevision (OpFetch snapA) dsTripped)) \<and>
   primaryFailCount (step byRevision (OpFetch snapA) dsDenied) = 0 \<and>
   \<not> isPrimaryDisabled (step byRevision (OpFetch snapA) dsDenied)"
proof -
  have tripped: "isPrimaryDisabled dsTripped \<and>
      primary (step byRevision (OpFetch snapA) dsTripped) = primary dsTripped \<and>
      (\<forall>c \<in> set (invoked dsTripped (step byRevision (OpFetch snapA) dsTripped)). fst c \<noteq> PrimaryEP)"
    using circuit_breaker [of dsFlaky byRevision "[]" "spyStore errNoHost []" "spyStore None []"
      "OpFetch snapA" MFetch errNoHost dsFlaky1
      "OpFetch snapA" MFetch errNoHost dsFlaky2
      "OpFetch snapA" MFetch errNoHost dsTripped
      "OpFetch snapA" "OpFetch snapA" MFetch errDenied dsDenied]
      dsFlaky_reachable dsFlaky_invoked isTransientError_errNoHost
      dsFlaky1_def dsFlaky2_def dsTripped_def isSaveOrFetch.simps(2)
    by blast
  have reset: "primaryFailCount (step byRevision (OpFetch snapA) dsDenied) = 0 \<and>
      \<not> isPrimaryDisabled (step byRevision (OpFetch snapA) dsDenied)"
    using circuit_breaker [of dsFlaky byRevision "[]" "spyStore errNoHost []" "spyStore None []"
      "OpFetch snapA" MFetch errNoHost dsFlaky1
      "OpFetch snapA" MFetch errNoHost dsFlaky2
      "OpFetch snapA" MFetch errNoHost dsTripped
      "OpFetch snapA" "OpFetch snapA" MFetch errDenied dsDenied]
      dsDenied_invoked not_isTransientError_errDenied errDenied_not_nil isSaveOrFetch.simps(2)
    by blast
  from tripped have "(PrimaryEP, MFetch, errNoHost) \<notin>
      set (invoked dsTripped (step byRevision (OpFetch snapA) dsTripped))"
    by auto
  with tripped reset dsTripped_next show ?thesis by simp
qed

lemma dsTripped_disabled: "isPrimaryDisabled dsTripped"
  by (simp add: dsTripped_eq isPrimaryDisabled_def)

theorem disabled_forever_witness:
  "isPrimaryDisabled dsTripped \<and>
   isPrimaryDisabled (run byRevision
      [OpSave snapA rcGood, OpFetch snapA, OpList True RecvSnaps RecvErr rev, OpDelete snapA,
       OpFetch snapA] dsTripped) \<and>
   primaryFailCount (run byRevision
      [OpSave snapA rcGood, OpFetch snapA, OpList True RecvSnaps RecvErr rev, OpDelete snapA,
       OpFetch snapA] dsTripped) = 3"
  using disabled_forever [OF dsTripped_disabled, of byRevision
      "[OpSave snapA rcGood, OpFetch snapA, OpList True RecvSnaps RecvErr rev, OpDelete snapA,
       OpFetch snapA]"] dsTripped_disabled
  by (simp add: dsTripped_eq)

subsection \<open>Calls that overlap\<close>

text \<open>
  \<open>Fetch\<close> is its disable check followed by \<open>Fetch_in_flight\<close> or by the secondary
  attempt, and likewise \<open>Save\<close> once the content is read.
\<close>

lemma Fetch_phases:
  "Fetch ds snap =
     (if \<not> isPrimaryDisabled ds then Fetch_in_flight ds snap else Fetch_secondary ds snap)"
  by (simp add: Fetch_def Fetch_in_flight_def)

lemma Save_phases:
  "failure rc = None \<Longrightarrow>
     Save ds snap rc =
       (if \<not> isPrimaryDisabled ds then Save_in_flight ds snap (content rc)
        else Save_secondary ds snap (content rc)
               (Errorf ''primary endpoint disabled due to repeated failures''))"
  by (simp add: Save_def Save_in_flight_def ReadAll_def)

lemma dsOvertaken_eq: "dsOvertaken =
  \<lparr>primary = recoveringStore\<lparr>self := 3\<rparr>, secondary = (spyStore None [])\<lparr>self := 3\<rparr>,
   primaryFailed = True, primaryFailCount = 3,
   calls = [(PrimaryEP, MFetch, errNoHost), (SecondaryEP, MFetch, None),
            (PrimaryEP, MFetch, errNoHost), (SecondaryEP, MFetch, None),
            (PrimaryEP, MFetch, errNoHost), (SecondaryEP, MFetch, None)]\<rparr>"
  by (simp add: dsOvertaken_def dsRecovering_def run_def recoveringStore_def run_simps)

text \<open>
  Claim C3 as stated (once the primary is disabled, no later operation re-enables it)
  fails when calls overlap. A call of \<open>Fetch\<close> finds the primary of a new store enabled.
  Before it goes on, three other calls of \<open>Fetch\<close> run; each gets a DNS error from the
  primary, and after them the primary is disabled. The first call then goes on: its
  primary call succeeds, it runs \<open>resetPrimaryFailureState\<close>, and the primary is enabled
  again.
\<close>

theorem in_flight_Fetch_reenables_primary:
  "\<not> isPrimaryDisabled dsRecovering \<and>
   dsOvertaken = run byRevision [OpFetch snapA, OpFetch snapA, OpFetch snapA] dsRecovering \<and>
   isPrimaryDisabled dsOvertaken \<and>
   fst (Fetch_in_flight dsOvertaken snapA) = (Some (NopCloser []), None) \<and>
   invoked dsOvertaken (snd (Fetch_in_flight dsOvertaken snapA)) = [(PrimaryEP, MFetch, None)] \<and>
   primaryFailCount (snd (Fetch_in_flight dsOvertaken snapA)) = 0 \<and>
   \<not> isPrimaryDisabled (snd (Fetch_in_flight dsOvertaken snapA))"
proof -
  have a: "\<not> isPrimaryDisabled dsRecovering"
    by (simp add: dsRecovering_def NewDualSnapStore_def isPrimaryDisabled_def)
  have b: "isPrimaryDisabled dsOvertaken"
    by (simp add: dsOvertaken_eq isPrimaryDisabled_def)
  have c: "Fetch_in_flight dsOvertaken snapA =
      ((Some (NopCloser []), None),
       \<lparr>primary = recoveringStore\<lparr>self := 4\<rparr>, secondary = (spyStore None [])\<lparr>self := 3\<rparr>,
        primaryFailed = False, primaryFailCount = 0,
        calls = [(PrimaryEP, MFetch, errNoHost), (SecondaryEP, MFetch, None),
                 (PrimaryEP, MFetch, errNoHost), (SecondaryEP, MFetch, None),
                 (PrimaryEP, MFetch, errNoHost), (SecondaryEP, MFetch, None),
                 (PrimaryEP, MFetch, None)]\<rparr>)"
    by (simp add: Fetch_in_flight_def dsOvertaken_eq primary_Fetch_def callFetch_def
        recoveringStore_def resetPrimaryFailureState_def)
  have d: "invoked dsOvertaken (snd (Fetch_in_flight dsOvertaken snapA)) = [(PrimaryEP, MFetch, None)]"
    by (simp add: c invoked_def) (simp add: dsOvertaken_eq)
  have e: "fst (Fetch_in_flight dsOvertaken snapA) = (Some (NopCloser []), None)"
      "primaryFailCount (snd (Fetch_in_flight dsOvertaken snapA)) = 0"
      "\<not> isPrimaryDisabled (snd (Fetch_in_flight dsOvertaken snapA))"
    by (simp_all add: c isPrimaryDisabled_def)
  from a dsOvertaken_def b e(1) d e(2,3) show ?thesis by (intro conjI)
qed

subsection \<open>The resilient wrapper\<close>

text \<open>
  Claim C8: for the resilient wrapper around any backend, \<open>List\<close> returns the empty
  list and no error when the underlying \<open>List\<close> fails with a transient-classified
  error, and the underlying results otherwise; \<open>Fetch\<close>, \<open>Save\<close> and \<open>Delete\<close>
  return the underlying error as it is, transient or not.
\<close>

theorem Resilient_error_passing:
  "(isTransientError (snd (fst (List_m S b includeAll))) \<longrightarrow>
      fst (Resilient_List S b includeAll) = ([], None)) \<and>
   (\<not> isTransientError (snd (fst (List_m S b includeAll))) \<longrightarrow>
      fst (Resilient_List S b includeAll) = fst (List_m S b includeAll)) \<and>
   snd (fst (Resilient_Fetch S b snap)) = snd (fst (Fetch_m S b snap)) \<and>
   fst (Resilient_Save S b snap rc) = fst (Save_m S b snap rc) \<and>
   fst (Resilient_Delete S b snap) = fst (Delete_m S b snap)"
  by (auto simp: Resilient_List_def Resilient_Fetch_def Resilient_Save_def Resilient_Delete_def
      dest: isTransientError_not_nil split: prod.splits)

theorem Resilient_error_passing_witness:
  "isTransientError (snd (fst (List_m (flakyStore errNoHost) errNoHost True))) \<and>
   fst (List_m (flakyStore errNoHost) errNoHost True) = ([snapA], errNoHost) \<and>
   fst (Resilient_List (flakyStore errNoHost) errNoHost True) = ([], None) \<and>
   \<not> isTransientError (snd (fst (List_m (flakyStore errDenied) errDenied True))) \<and>
   fst (Resilient_List (flakyStore errDenied) errDenied True) = ([snapA], errDenied) \<and>
   snd (fst (Resilient_Fetch (flakyStore errNoHost) errNoHost snapA)) = errNoHost \<and>
   fst (Resilient_Save (flakyStore errNoHost) errNoHost snapA rcGood) = errNoHost \<and>
   fst (Resilient_Delete (flakyStore errDenied) errDenied snapA) = errDenied"
proof -
  have l: "fst (List_m (flakyStore e) e True) = ([snapA], e)" for e
    by (simp add: flakyStore_def)
  have o: "snd (fst (Fetch_m (flakyStore e) e snapA)) = e"
      "fst (Save_m (flakyStore e) e snapA rcGood) = e"
      "fst (Delete_m (flakyStore e) e snapA) = e" for e
    by (simp_all add: flakyStore_def)
  show ?thesis
    using Resilient_error_passing [of "flakyStore errNoHost" errNoHost True snapA rcGood]
      Resilient_error_passing [of "flakyStore errDenied" errDenied True snapA rcGood]
      l o isTransientError_errNoHost not_isTransientError_errDenied
    by simp
qed

subsection \<open>List\<close>

text \<open>
  When each \<open>select\<close> happens to receive from the channel that holds the sent value,
  \<open>List\<close> does what its comments say: both listings failed with transient errors
  gives the "temporarily unavailable" error, both failed otherwise gives the aggregate
  error, and one failure gives the merge of the other endpoint's list.
\<close>

lemma List_when_select_takes_sent_value:
  assumes "fst (callList (primary ds) includeAll) = rp"
    and "fst (callList (secondary ds) includeAll) = rs"
    and "pickP = sentCase rp" and "pickS = sentCase rs"
  shows "fst (List lt ds includeAll pickP pickS iter) =
    (if snd rp \<noteq> None \<and> snd rs \<noteq> None
     then (if isTransientError (snd rp) \<and> isTransientError (snd rs)
           then ([], Errorf (''both endpoints temporarily unavailable - Primary: '' @
                             fmtV (snd rp) @ '', Secondary: '' @ fmtV (snd rs)))
           else ([], Errorf (''failed to list snapshots from both endpoints - Primary: '' @
                             fmtV (snd rp) @ '', Secondary: '' @ fmtV (snd rs))))
     else (mergeSnapshots lt iter (if snd rp = None then fst rp else [])
                                  (if snd rs = None then fst rs else []), None))"
  using assms
  by (auto simp: List_def primary_List_def secondary_List_def listChannels_def selectOutcome_def
      recvClosed_def sentCase_def Let_def split: prod.splits option.splits)

text \<open>
  Claim C5 (both listings fail with transient errors: \<open>List\<close> returns the
  "temporarily unavailable" error and no list; exactly one fails: \<open>List\<close> returns the
  other endpoint's list) fails on the code, because the channels are closed before the
  \<open>select\<close>s run and a \<open>select\<close> may then receive the zero value from the empty
  channel. First run: both backends fail their listing with a DNS error, both
  \<open>select\<close>s receive from the closed list channel, and \<open>List\<close> returns an empty list
  with no error. Second run: the primary lists one snapshot, the secondary fails, both
  \<open>select\<close>s receive from the error channel, and \<open>List\<close> returns an empty list
  instead of the primary's.
\<close>

theorem List_select_loses_outcomes:
  "fst (callList (spyStore errNoHost []) True) = ([], errNoHost) \<and>
   isTransientError errNoHost \<and>
   fst (List byRevision (NewDualSnapStore (spyStore errNoHost []) (spyStore errNoHost []))
          True RecvSnaps RecvSnaps id) = ([], None) \<and>
   fst (callList (spyStore None [snapA]) True) = ([snapA], None) \<and>
   fst (List byRevision (NewDualSnapStore (spyStore None [snapA]) (spyStore errNoHost []))
          True RecvErr RecvErr id) = ([], None)"
  by (simp add: List_def primary_List_def secondary_List_def listChannels_def selectOutcome_def
      recvClosed_def callList_def spyStore_def NewDualSnapStore_def errNoHost_def Errorf_def
      isTransientError_def mergeSnapshots_def addPrimary_def addSecondary_def sortSnaps_def)

subsection \<open>mergeSnapshots\<close>

lemma find_snoc:
  "List.find p (xs @ [x]) = (case List.find p xs of Some e \<Rightarrow> Some e | None \<Rightarrow> if p x then Some x else None)"
  by (induction xs) auto

lemma set_update_subset: "set (AList.update k v al) \<subseteq> insert (k, v) (set al)"
  by (induction al) auto

lemma keyed_update: "keyed m \<Longrightarrow> keyed (AList.update (snapKey e) e m)"
  using set_update_subset [of "snapKey e" e m]
  by (auto simp: keyed_def distinct_update)

lemma keyed_addPrimary: "keyed m \<Longrightarrow> keyed (addPrimary P m)"
  unfolding addPrimary_def by (induction P arbitrary: m) (simp_all add: keyed_update)

lemma keyed_addSecondary: "keyed m \<Longrightarrow> keyed (addSecondary S m)"
  unfolding addSecondary_def by (induction S arbitrary: m) (simp_all add: keyed_update)

lemma map_of_addPrimary:
  "map_of (addPrimary P m) k =
     (case List.find (\<lambda>p. snapKey p = k) (rev P) of Some e \<Rightarrow> Some e | None \<Rightarrow> map_of m k)"
  unfolding addPrimary_def
  by (induction P arbitrary: m) (auto simp: find_snoc update_conv' split: option.splits)

lemma map_of_addSecondary:
  "map_of (addSecondary S m) k =
     (case map_of m k of Some e \<Rightarrow> Some e | None \<Rightarrow> List.find (\<lambda>s. snapKey s = k) S)"
  unfolding addSecondary_def
  by (induction S arbitrary: m) (auto simp: update_conv' split: option.splits)

lemma keyed_values:
  assumes "keyed m"
  shows "e \<in> set (map snd m) \<longleftrightarrow> map_of m (snapKey e) = Some e"
    and "map snapKey (map snd m) = map fst m"
  using assms by (auto simp: keyed_def intro!: image_eqI)

lemma mset_insertSnap: "mset (insertSnap lt x ys) = add_mset x (mset ys)"
  by (induction ys) auto

lemma mset_sortSnaps: "mset (sortSnaps lt xs) = mset xs"
  unfolding sortSnaps_def by (induction xs) (auto simp: mset_insertSnap)

lemma set_insertSnap: "set (insertSnap lt x ys) = insert x (set ys)"
  using mset_insertSnap [of lt x ys, THEN arg_cong, of set_mset] by simp

lemma sorted_insertSnap:
  assumes "\<forall>a b. lt a b \<longrightarrow> \<not> lt b a"
    and "\<forall>a b c. \<not> lt b a \<and> \<not> lt c b \<longrightarrow> \<not> lt c a"
    and "sorted_wrt (\<lambda>a b. \<not> lt b a) ys"
  shows "sorted_wrt (\<lambda>a b. \<not> lt b a) (insertSnap lt x ys)"
  using assms(3)
proof (induction ys)
  case Nil
  then show ?case by simp
next
  case (Cons y ys)
  from Cons.prems have s: "\<forall>z \<in> set ys. \<not> lt z y" "sorted_wrt (\<lambda>a b. \<not> lt b a) ys"
    by simp_all
  show ?case
  proof (cases "lt y x")
    case True
    with assms(1) have "\<not> lt x y" by blast
    with s Cons.IH [OF s(2)] True show ?thesis by (simp add: set_insertSnap)
  next
    case False
    have "\<forall>z \<in> set ys. \<not> lt z x"
    proof
      fix z assume "z \<in> set ys"
      with s(1) have "\<not> lt z y" by blast
      with False assms(2) show "\<not> lt z x" by blast
    qed
    with False Cons.prems show ?thesis by simp
  qed
qed

lemma sorted_sortSnaps:
  assumes "\<forall>a b. lt a b \<longrightarrow> \<not> lt b a"
    and "\<forall>a b c. \<not> lt b a \<and> \<not> lt c b \<longrightarrow> \<not> lt c a"
  shows "sorted_wrt (\<lambda>a b. \<not> lt b a) (sortSnaps lt xs)"
  unfolding sortSnaps_def
  by (induction xs) (simp_all add: sorted_insertSnap [OF assms])

lemma mset_mergeSnapshots:
  assumes "\<forall>xs. mset (iter xs) = mset xs"
  shows "mset (mergeSnapshots lt iter P S) = mset (map snd (addSecondary S (addPrimary P [])))"
  using assms by (simp add: mergeSnapshots_def mset_sortSnaps)

lemma keyed_snapMap: "keyed (addSecondary S (addPrimary P []))"
  by (intro keyed_addSecondary keyed_addPrimary) (simp add: keyed_def)

text \<open>
  What \<open>mergeSnapshots\<close> computes, for every pair of lists: an entry is in the result
  iff it is the last primary entry with its key or, when no primary entry has its key,
  the first secondary entry with its key; and no two entries of the result share a key.
\<close>

lemma mergeSnapshots_by_key:
  assumes "\<forall>xs. mset (iter xs) = mset xs"
  shows "e \<in> set (mergeSnapshots lt iter P S) \<longleftrightarrow>
           (case List.find (\<lambda>p. snapKey p = snapKey e) (rev P) of
              Some p \<Rightarrow> p = e
            | None \<Rightarrow> List.find (\<lambda>s. snapKey s = snapKey e) S = Some e)"
    and "distinct (map snapKey (mergeSnapshots lt iter P S))"
proof -
  let ?m = "addSecondary S (addPrimary P [])"
  have ms: "mset (mergeSnapshots lt iter P S) = mset (map snd ?m)"
    by (rule mset_mergeSnapshots [OF assms])
  have "e \<in> set (mergeSnapshots lt iter P S) \<longleftrightarrow> e \<in> set (map snd ?m)"
    using mset_eq_setD [OF ms] by simp
  also have "\<dots> \<longleftrightarrow> map_of ?m (snapKey e) = Some e"
    by (rule keyed_values(1) [OF keyed_snapMap])
  also have "\<dots> \<longleftrightarrow> (case List.find (\<lambda>p. snapKey p = snapKey e) (rev P) of
              Some p \<Rightarrow> p = e
            | None \<Rightarrow> List.find (\<lambda>s. snapKey s = snapKey e) S = Some e)"
    by (simp add: map_of_addSecondary map_of_addPrimary split: option.splits)
  finally show "e \<in> set (mergeSnapshots lt iter P S) \<longleftrightarrow>
           (case List.find (\<lambda>p. snapKey p = snapKey e) (rev P) of
              Some p \<Rightarrow> p = e
            | None \<Rightarrow> List.find (\<lambda>s. snapKey s = snapKey e) S = Some e)" .
  have "mset (map snapKey (mergeSnapshots lt iter P S)) =
          image_mset snapKey (mset (mergeSnapshots lt iter P S))"
    by (rule mset_map)
  also have "\<dots> = image_mset snapKey (mset (map snd ?m))"
    by (simp only: ms)
  also have "\<dots> = mset (map snapKey (map snd ?m))"
    by (rule mset_map [symmetric])
  finally have k: "mset (map snapKey (mergeSnapshots lt iter P S)) =
          mset (map snapKey (map snd ?m))" .
  have "distinct (map fst ?m)"
    using keyed_snapMap [of S P] by (simp add: keyed_def)
  then have "distinct (map snapKey (map snd ?m))"
    by (simp only: keyed_values(2) [OF keyed_snapMap])
  with mset_eq_imp_distinct_iff [OF k]
  show "distinct (map snapKey (mergeSnapshots lt iter P S))" by simp
qed

lemma snapKey_snapId: "snapKey s = fst (snapId s) @ ''-'' @ snd (snapId s)"
  by (simp add: snapKey_def snapId_def)

lemma snapId_eq_imp_snapKey_eq: "snapId a = snapId b \<Longrightarrow> snapKey a = snapKey b"
  by (simp add: snapKey_snapId)

lemma distinct_snapId: "distinct (map snapKey xs) \<Longrightarrow> distinct (map snapId xs)"
proof (induction xs)
  case Nil
  then show ?case by simp
next
  case (Cons x xs)
  have "snapId x \<notin> snapId ` set xs"
  proof
    assume "snapId x \<in> snapId ` set xs"
    then obtain y where "y \<in> set xs" "snapId x = snapId y" by blast
    then have "snapKey x \<in> snapKey ` set xs"
      using snapId_eq_imp_snapKey_eq by blast
    with Cons.prems show False by simp
  qed
  with Cons show ?case by simp
qed

lemma find_by_key_as_by_id:
  assumes "\<forall>a \<in> A. \<forall>b \<in> A. snapKey a = snapKey b \<longrightarrow> snapId a = snapId b"
    and "e \<in> A" and "set xs \<subseteq> A"
  shows "List.find (\<lambda>p. snapKey p = snapKey e) xs = List.find (\<lambda>p. snapId p = snapId e) xs"
proof (rule find_cong [OF refl])
  fix x assume "x \<in> set xs"
  with assms(3) have "x \<in> A" by blast
  with assms(1,2) show "(snapKey x = snapKey e) = (snapId x = snapId e)"
    using snapId_eq_imp_snapKey_eq by blast
qed

lemma find_Some_mem: "List.find p xs = Some x \<Longrightarrow> x \<in> set xs"
  by (induction xs) (auto split: if_splits)

lemma mergeSnapshots_subset:
  assumes "\<forall>xs. mset (iter xs) = mset xs"
  shows "set (mergeSnapshots lt iter P S) \<subseteq> set P \<union> set S"
proof
  fix e assume "e \<in> set (mergeSnapshots lt iter P S)"
  then have c: "(case List.find (\<lambda>p. snapKey p = snapKey e) (rev P) of
              Some p \<Rightarrow> p = e
            | None \<Rightarrow> List.find (\<lambda>s. snapKey s = snapKey e) S = Some e)"
    by (simp only: mergeSnapshots_by_key(1) [OF assms])
  show "e \<in> set P \<union> set S"
  proof (cases "List.find (\<lambda>p. snapKey p = snapKey e) (rev P)")
    case None
    with c have "List.find (\<lambda>s. snapKey s = snapKey e) S = Some e" by simp
    then have "e \<in> set S" by (rule find_Some_mem)
    then show ?thesis by simp
  next
    case (Some p)
    with c have "List.find (\<lambda>p. snapKey p = snapKey e) (rev P) = Some e" by simp
    then have "e \<in> set (rev P)" by (rule find_Some_mem)
    then show ?thesis by simp
  qed
qed

lemma mergeSnapshots_by_id:
  assumes "\<forall>xs. mset (iter xs) = mset xs"
    and "\<forall>a \<in> set P \<union> set S. \<forall>b \<in> set P \<union> set S. snapKey a = snapKey b \<longrightarrow> snapId a = snapId b"
    and "e \<in> set P \<union> set S"
  shows "e \<in> set (mergeSnapshots lt iter P S) \<longleftrightarrow>
           (case List.find (\<lambda>p. snapId p = snapId e) (rev P) of
              Some p \<Rightarrow> p = e
            | None \<Rightarrow> List.find (\<lambda>s. snapId s = snapId e) S = Some e)"
proof -
  have p: "List.find (\<lambda>p. snapKey p = snapKey e) (rev P) = List.find (\<lambda>p. snapId p = snapId e) (rev P)"
    by (rule find_by_key_as_by_id [OF assms(2,3)]) simp
  have s: "List.find (\<lambda>p. snapKey p = snapKey e) S = List.find (\<lambda>p. snapId p = snapId e) S"
    by (rule find_by_key_as_by_id [OF assms(2,3)]) simp
  show ?thesis by (simp only: mergeSnapshots_by_key(1) [OF assms(1)] p s)
qed

lemma merge_example_map:
  "map snd (addSecondary [snapA2, snapB] (addPrimary [snapA] [])) = [snapA, snapB]"
  by (simp add: addSecondary_def addPrimary_def snapKey_def snapA_def snapA2_def snapB_def)

lemma merge_example:
  assumes "\<forall>xs. mset (iter xs) = mset xs"
  shows "length (mergeSnapshots lt iter [snapA] [snapA2, snapB]) = 2 \<and>
         set (mergeSnapshots lt iter [snapA] [snapA2, snapB]) = {snapA, snapB}"
proof -
  have m: "mset (mergeSnapshots lt iter [snapA] [snapA2, snapB]) = mset [snapA, snapB]"
    by (simp only: mset_mergeSnapshots [OF assms] merge_example_map)
  from mset_eq_length [OF m] mset_eq_setD [OF m] show ?thesis by simp
qed

text \<open>
  Claim C4, amended. Let the two lists be such that entries with different
  (directory, name) pairs never get the same map key \<open>SnapDir-SnapName\<close>. Then
  \<open>mergeSnapshots\<close> deduplicates by the pair: an entry of either list is in the result
  iff it is the last primary entry with its pair or, when no primary entry has its pair,
  the first secondary entry with its pair (so the primary wins on a collision, and within
  one list one entry per pair is kept). For all lists, the result holds only entries of
  the two lists, no two of its entries have the same pair, and it is sorted by the domain
  ordering whenever that ordering is asymmetric and its negation is transitive. For
  primary \<open>[(A, X, rev 1)]\<close> and secondary \<open>[(A, X, rev 2), (B, Y)]\<close> the result has
  exactly two entries and its \<open>(A, X)\<close> entry is the primary's. All of this holds for
  every order in which Go iterates over the map.
\<close>

theorem mergeSnapshots_dedup:
  "(\<forall>xs. mset (iter xs) = mset xs) \<longrightarrow>
     ((\<forall>a \<in> set P \<union> set S. \<forall>b \<in> set P \<union> set S. snapKey a = snapKey b \<longrightarrow> snapId a = snapId b) \<longrightarrow>
        (\<forall>e \<in> set P \<union> set S.
           e \<in> set (mergeSnapshots lt iter P S) \<longleftrightarrow>
             (case List.find (\<lambda>p. snapId p = snapId e) (rev P) of
                Some p \<Rightarrow> p = e
              | None \<Rightarrow> List.find (\<lambda>s. snapId s = snapId e) S = Some e))) \<and>
     set (mergeSnapshots lt iter P S) \<subseteq> set P \<union> set S \<and>
     distinct (map snapId (mergeSnapshots lt iter P S)) \<and>
     ((\<forall>a b. lt a b \<longrightarrow> \<not> lt b a) \<and> (\<forall>a b c. \<not> lt b a \<and> \<not> lt c b \<longrightarrow> \<not> lt c a) \<longrightarrow>
        sorted_wrt (\<lambda>a b. \<not> lt b a) (mergeSnapshots lt iter P S)) \<and>
     length (mergeSnapshots lt iter [snapA] [snapA2, snapB]) = 2 \<and>
     (\<forall>e \<in> set (mergeSnapshots lt iter [snapA] [snapA2, snapB]).
        snapId e = (''A'', ''X'') \<longrightarrow> e = snapA)"
proof (intro impI conjI ballI)
  assume perm: "\<forall>xs. mset (iter xs) = mset xs"
  show "set (mergeSnapshots lt iter P S) \<subseteq> set P \<union> set S"
    by (rule mergeSnapshots_subset [OF perm])
  show "distinct (map snapId (mergeSnapshots lt iter P S))"
    by (rule distinct_snapId [OF mergeSnapshots_by_key(2) [OF perm]])
  show "length (mergeSnapshots lt iter [snapA] [snapA2, snapB]) = 2"
    using merge_example [OF perm] by simp
  {
    fix e assume "e \<in> set (mergeSnapshots lt iter [snapA] [snapA2, snapB])"
      and "snapId e = (''A'', ''X'')"
    with merge_example [OF perm, of lt] show "e = snapA"
      by (auto simp: snapId_def snapB_def)
  }
  {
    assume "\<forall>a \<in> set P \<union> set S. \<forall>b \<in> set P \<union> set S. snapKey a = snapKey b \<longrightarrow> snapId a = snapId b"
    moreover fix e assume "e \<in> set P \<union> set S"
    ultimately show "e \<in> set (mergeSnapshots lt iter P S) \<longleftrightarrow>
             (case List.find (\<lambda>p. snapId p = snapId e) (rev P) of
                Some p \<Rightarrow> p = e
              | None \<Rightarrow> List.find (\<lambda>s. snapId s = snapId e) S = Some e)"
      by (rule mergeSnapshots_by_id [OF perm])
  }
  {
    assume o: "(\<forall>a b. lt a b \<longrightarrow> \<not> lt b a) \<and> (\<forall>a b c. \<not> lt b a \<and> \<not> lt c b \<longrightarrow> \<not> lt c a)"
    show "sorted_wrt (\<lambda>a b. \<not> lt b a) (mergeSnapshots lt iter P S)"
      unfolding mergeSnapshots_def Let_def
      by (rule sorted_sortSnaps [OF conjunct1 [OF o] conjunct2 [OF o]])
  }
qed

text \<open>
  Claim C4 as stated fails in two ways. The secondary entry \<open>(a, b-c)\<close> has the pair of
  no primary entry, yet it is not in the merge with the primary entry \<open>(a-b, c)\<close>:
  both have the key \<open>a-b-c\<close>. And of two primary entries with the same pair only the
  later one is in the result.
\<close>

theorem mergeSnapshots_pair_counterexample:
  "snapId snapDashS \<noteq> snapId snapDashP \<and>
   snapDashS \<notin> set (mergeSnapshots byRevision id [snapDashP] [snapDashS]) \<and>
   snapA \<in> set [snapA, snapA2] \<and>
   snapA \<notin> set (mergeSnapshots byRevision id [snapA, snapA2] [])"
  by (simp add: mergeSnapshots_def addSecondary_def addPrimary_def sortSnaps_def snapKey_def
      snapId_def snapDashP_def snapDashS_def snapA_def snapA2_def)

theorem mergeSnapshots_dedup_witness:
  "snapA \<in> set (mergeSnapshots byRevision rev [snapA] [snapA2, snapB]) \<and>
   snapA2 \<notin> set (mergeSnapshots byRevision rev [snapA] [snapA2, snapB]) \<and>
   snapB \<in> set (mergeSnapshots byRevision rev [snapA] [snapA2, snapB]) \<and>
   length (mergeSnapshots byRevision rev [snapA] [snapA2, snapB]) = 2 \<and>
   sorted_wrt (\<lambda>a b. \<not> byRevision b a) (mergeSnapshots byRevision rev [snapA] [snapA2, snapB])"
proof -
  let ?R = "mergeSnapshots byRevision rev [snapA] [snapA2, snapB]"
  have perm: "\<forall>xs::SnapList. mset (rev xs) = mset xs" by simp
  have inj: "\<forall>a \<in> set [snapA] \<union> set [snapA2, snapB]. \<forall>b \<in> set [snapA] \<union> set [snapA2, snapB].
               snapKey a = snapKey b \<longrightarrow> snapId a = snapId b"
    by (simp add: snapKey_def snapId_def snapA_def snapA2_def snapB_def)
  have ord: "(\<forall>a b. byRevision a b \<longrightarrow> \<not> byRevision b a) \<and>
             (\<forall>a b c. \<not> byRevision b a \<and> \<not> byRevision c b \<longrightarrow> \<not> byRevision c a)"
    by (auto simp: byRevision_def)
  note T = mergeSnapshots_dedup [where iter = rev and P = "[snapA]" and S = "[snapA2, snapB]"
      and lt = byRevision, THEN mp, OF perm]
  note char = T [THEN conjunct1, THEN mp, OF inj]
  note srt = T [THEN conjunct2, THEN conjunct2, THEN conjunct2, THEN conjunct1, THEN mp, OF ord]
  note len = T [THEN conjunct2, THEN conjunct2, THEN conjunct2, THEN conjunct2, THEN conjunct1]
  have a: "snapA \<in> set ?R"
    using char [THEN bspec, of snapA] by (simp add: snapId_def)
  have a2: "snapA2 \<notin> set ?R"
    using char [THEN bspec, of snapA2] by (simp add: snapId_def snapA_def snapA2_def)
  have b: "snapB \<in> set ?R"
    using char [THEN bspec, of snapB] by (simp add: snapId_def snapA_def snapA2_def snapB_def)
  from a a2 b len srt show ?thesis by (intro conjI)
qed

subsection \<open>The chunk-upload coordinator\<close>

text \<open>One iteration of the loop, by the kind of result received.\<close>

lemma collectLoop_terminal:
  assumes "res_err r \<noteq> None" and "attempt (res_chunk r) = maxRetryAttempts"
  shows "collectLoop maxRetryAttempts closed remaining started (r # rest) =
           Some \<lparr>returned = Some r, stopClosed = True, timers = started, undrained = rest\<rparr>"
  using assms by simp

lemma collectLoop_retry:
  assumes "res_err r \<noteq> None" and "attempt (res_chunk r) \<noteq> maxRetryAttempts"
  shows "collectLoop maxRetryAttempts closed remaining started (r # rest) =
           collectLoop maxRetryAttempts closed remaining (started @ [resubmission r]) rest"
  using assms by (simp add: resubmission_def Let_def)

lemma collectLoop_success_more:
  assumes "res_err r = None" and "remaining - 1 \<noteq> 0"
  shows "collectLoop maxRetryAttempts closed remaining started (r # rest) =
           collectLoop maxRetryAttempts closed (remaining - 1) started rest"
  using assms by (simp add: Let_def)

lemma collectLoop_success_last:
  assumes "res_err r = None" and "remaining - 1 = 0"
  shows "collectLoop maxRetryAttempts closed remaining started (r # rest) =
           Some \<lparr>returned = None, stopClosed = True, timers = started, undrained = rest\<rparr>"
  using assms by (simp add: Let_def)

lemma collectLoop_all_done:
  assumes "\<forall>r \<in> set pre. res_err r \<noteq> None \<longrightarrow> attempt (res_chunk r) \<noteq> maxRetryAttempts"
    and "res_err s = None"
    and "unat remaining = Suc (length (filter (\<lambda>r. res_err r = None) pre))"
  shows "collectLoop maxRetryAttempts closed remaining started (pre @ s # rest) =
           Some \<lparr>returned = None, stopClosed = True,
                 timers = started @ map resubmission (filter (\<lambda>r. res_err r \<noteq> None) pre),
                 undrained = rest\<rparr>"
  using assms(1,3)
proof (induction pre arbitrary: remaining started)
  case Nil
  then have "unat remaining = 1" by simp
  then have "remaining = 1" by (metis unat_1 word_unat_eq_iff)
  then have "remaining - 1 = 0" by simp
  from collectLoop_success_last [OF assms(2) this] show ?case by simp
next
  case (Cons x xs)
  from Cons.prems(1)
  have t: "\<forall>r \<in> set xs. res_err r \<noteq> None \<longrightarrow> attempt (res_chunk r) \<noteq> maxRetryAttempts"
    by simp
  show ?case
  proof (cases "res_err x = None")
    case True
    with Cons.prems(2) have u: "unat remaining = Suc (Suc (length (filter (\<lambda>r. res_err r = None) xs)))"
      by simp
    then have nz: "remaining \<noteq> 0" by (metis nat.distinct(1) unat_0)
    from unat_minus_one [OF nz] u
    have u': "unat (remaining - 1) = Suc (length (filter (\<lambda>r. res_err r = None) xs))" by simp
    then have "remaining - 1 \<noteq> 0" by (metis nat.distinct(1) unat_0)
    from collectLoop_success_more [OF True this] Cons.IH [OF t u'] True
    show ?thesis by simp
  next
    case False
    with Cons.prems(1) have "attempt (res_chunk x) \<noteq> maxRetryAttempts" by simp
    from collectLoop_retry [OF False this] False Cons.prems(2)
      Cons.IH [OF t, of remaining "started @ [resubmission x]"]
    show ?thesis by simp
  qed
qed

lemma unat_of_count:
  assumes "int k + 1 = sint (n :: 64 word)"
  shows "unat n = Suc k"
proof -
  have "sint n < 2 ^ 63" using sint_lt [of n] by simp
  with assms have b: "Suc k < 2 ^ 64" by simp
  have "n = word_of_int (sint n)" by simp
  also have "\<dots> = of_nat (Suc k)" using assms [symmetric] by simp
  finally have "of_nat (Suc k) = n" by simp
  from of_nat_inverse [OF this] b show ?thesis by simp
qed

lemma timerDuration_seconds:
  assumes "a \<le> 33"
  shows "sint (timerDuration a) = 2 ^ a * 1000000000"
proof -
  have "(2::int) ^ a \<le> 2 ^ 33" using assms by (intro power_increasing) simp_all
  then have b: "(2::int) ^ a * 1000000000 < 2 ^ 63" by simp
  have "timerDuration a = word_of_int (2 ^ a * 1000000000)"
    by (simp add: timerDuration_def delayTime_def push_bit_eq_mult)
  then have "sint (timerDuration a) = signed_take_bit 63 ((2::int) ^ a * 1000000000)"
    by (simp only: sint_sbintrunc') simp
  also have "\<dots> = 2 ^ a * 1000000000"
  proof (rule signed_take_bit_int_eq_self)
    have "- (2 ^ 63) \<le> (0::int)" by simp
    also have "(0::int) \<le> 2 ^ a * 1000000000" by simp
    finally show "- (2 ^ 63) \<le> (2::int) ^ a * 1000000000" .
    show "(2::int) ^ a * 1000000000 < 2 ^ 63" by (rule b)
  qed
  finally show ?thesis .
qed

lemma collectLoop_exhausted:
  assumes "\<forall>x \<in> set pre. res_err x \<noteq> None \<longrightarrow> attempt (res_chunk x) \<noteq> maxRetryAttempts"
    and "res_err r \<noteq> None" and "attempt (res_chunk r) = maxRetryAttempts"
    and "length (filter (\<lambda>x. res_err x = None) pre) < unat remaining"
  shows "collectLoop maxRetryAttempts closed remaining started (pre @ r # rest) =
           Some \<lparr>returned = Some r, stopClosed = True,
                 timers = started @ map resubmission (filter (\<lambda>x. res_err x \<noteq> None) pre),
                 undrained = rest\<rparr>"
  using assms(1,4)
proof (induction pre arbitrary: remaining started)
  case Nil
  from collectLoop_terminal [OF assms(2,3)] show ?case by simp
next
  case (Cons x xs)
  from Cons.prems(1)
  have t: "\<forall>r \<in> set xs. res_err r \<noteq> None \<longrightarrow> attempt (res_chunk r) \<noteq> maxRetryAttempts"
    by simp
  show ?case
  proof (cases "res_err x = None")
    case True
    with Cons.prems(2) have u: "Suc (length (filter (\<lambda>r. res_err r = None) xs)) < unat remaining"
      by simp
    then have nz: "remaining \<noteq> 0" by (metis not_less_zero unat_0)
    from unat_minus_one [OF nz] u
    have u': "length (filter (\<lambda>r. res_err r = None) xs) < unat (remaining - 1)" by simp
    then have "remaining - 1 \<noteq> 0" by (metis not_less_zero unat_0)
    from collectLoop_success_more [OF True this] Cons.IH [OF t u'] True
    show ?thesis by simp
  next
    case False
    with Cons.prems(1) have ne: "attempt (res_chunk x) \<noteq> maxRetryAttempts" by simp
    from False Cons.prems(2) have u: "length (filter (\<lambda>r. res_err r = None) xs) < unat remaining"
      by (auto split: if_splits)
    have "collectLoop maxRetryAttempts closed remaining started ((x # xs) @ r # rest) =
            collectLoop maxRetryAttempts closed remaining (started @ [resubmission x]) (xs @ r # rest)"
      by (simp only: append_Cons collectLoop_retry [OF False ne])
    also have "\<dots> = Some \<lparr>returned = Some r, stopClosed = True,
                 timers = (started @ [resubmission x]) @ map resubmission (filter (\<lambda>x. res_err x \<noteq> None) xs),
                 undrained = rest\<rparr>"
      by (rule Cons.IH [OF t u])
    finally show ?thesis using False by simp
  qed
qed

lemma unat_above_count:
  assumes "int k < sint (n :: 64 word)"
  shows "k < unat n"
proof -
  from assms have "int (nat (sint n - 1)) + 1 = sint n" by simp
  from unat_of_count [OF this] assms show ?thesis by simp
qed

text \<open>
  Claim C9, for every list of results the channel delivers. (1) If a failed result
  arrives whose chunk is at \<open>maxRetryAttempts\<close>, while no earlier failed result was and
  fewer than \<open>noOfChunks\<close> results were successful, the coordinator returns: \<open>stopCh\<close>
  is closed, the returned value is that result, and the results after it stay in the
  channel. (2) If the successful results reach \<open>noOfChunks\<close> before any failed result at
  \<open>maxRetryAttempts\<close>, the coordinator returns \<open>nil\<close> with \<open>stopCh\<close> closed at the
  last of them. (3) In both cases one timer was started for each failed result received
  before, and a failed result not at the maximum makes the loop go on with one more
  timer; the timer's chunk is the failed chunk with \<open>attempt\<close> incremented, its
  duration is \<open>2 ^ attempt\<close> seconds (in nanoseconds) for attempts below a maximum of at
  most 34, and its callback sends nothing when \<open>stopCh\<close> is closed and the chunk
  otherwise.
\<close>

theorem chunk_upload_coordination:
  "((\<forall>x \<in> set pre. res_err x \<noteq> None \<longrightarrow> attempt (res_chunk x) \<noteq> maxRetryAttempts) \<and>
    int (length (filter (\<lambda>x. res_err x = None) pre)) < sint noOfChunks \<and>
    res_err r \<noteq> None \<and> attempt (res_chunk r) = maxRetryAttempts \<longrightarrow>
      collectChunkUploadError maxRetryAttempts closed (pre @ r # rest) noOfChunks =
        Some \<lparr>returned = Some r, stopClosed = True,
              timers = map resubmission (filter (\<lambda>x. res_err x \<noteq> None) pre),
              undrained = rest\<rparr>) \<and>
   ((\<forall>x \<in> set pre. res_err x \<noteq> None \<longrightarrow> attempt (res_chunk x) \<noteq> maxRetryAttempts) \<and>
    int (length (filter (\<lambda>x. res_err x = None) pre)) + 1 = sint noOfChunks \<and>
    res_err s = None \<longrightarrow>
      collectChunkUploadError maxRetryAttempts closed (pre @ s # rest) noOfChunks =
        Some \<lparr>returned = None, stopClosed = True,
              timers = map resubmission (filter (\<lambda>x. res_err x \<noteq> None) pre),
              undrained = rest\<rparr>) \<and>
   (res_err r \<noteq> None \<and> attempt (res_chunk r) \<noteq> maxRetryAttempts \<longrightarrow>
      collectLoop maxRetryAttempts closed remaining started (r # rest) =
        collectLoop maxRetryAttempts closed remaining (started @ [resubmission r]) rest) \<and>
   snd (resubmission r) = (res_chunk r)\<lparr>attempt := attempt (res_chunk r) + 1\<rparr> \<and>
   (attempt (res_chunk r) < maxRetryAttempts \<and> maxRetryAttempts \<le> 34 \<longrightarrow>
      sint (fst (resubmission r)) = 2 ^ attempt (res_chunk r) * 1000000000) \<and>
   timerCallback True c = None \<and> timerCallback False c = Some c"
proof (intro conjI impI)
  assume a: "(\<forall>x \<in> set pre. res_err x \<noteq> None \<longrightarrow> attempt (res_chunk x) \<noteq> maxRetryAttempts) \<and>
    int (length (filter (\<lambda>x. res_err x = None) pre)) < sint noOfChunks \<and>
    res_err r \<noteq> None \<and> attempt (res_chunk r) = maxRetryAttempts"
  then have u: "length (filter (\<lambda>x. res_err x = None) pre) < unat noOfChunks"
    by (intro unat_above_count) simp
  from a collectLoop_exhausted [OF _ _ _ u, of maxRetryAttempts r closed "[]" rest]
  show "collectChunkUploadError maxRetryAttempts closed (pre @ r # rest) noOfChunks =
        Some \<lparr>returned = Some r, stopClosed = True,
              timers = map resubmission (filter (\<lambda>x. res_err x \<noteq> None) pre),
              undrained = rest\<rparr>"
    by (simp add: collectChunkUploadError_def)
next
  assume a: "(\<forall>x \<in> set pre. res_err x \<noteq> None \<longrightarrow> attempt (res_chunk x) \<noteq> maxRetryAttempts) \<and>
    int (length (filter (\<lambda>x. res_err x = None) pre)) + 1 = sint noOfChunks \<and>
    res_err s = None"
  then have u: "unat noOfChunks = Suc (length (filter (\<lambda>x. res_err x = None) pre))"
    by (intro unat_of_count) simp
  from a collectLoop_all_done [OF _ _ u, of maxRetryAttempts s closed "[]" rest]
  show "collectChunkUploadError maxRetryAttempts closed (pre @ s # rest) noOfChunks =
        Some \<lparr>returned = None, stopClosed = True,
              timers = map resubmission (filter (\<lambda>x. res_err x \<noteq> None) pre),
              undrained = rest\<rparr>"
    by (simp add: collectChunkUploadError_def)
next
  assume "res_err r \<noteq> None \<and> attempt (res_chunk r) \<noteq> maxRetryAttempts"
  then show "collectLoop maxRetryAttempts closed remaining started (r # rest) =
        collectLoop maxRetryAttempts closed remaining (started @ [resubmission r]) rest"
    using collectLoop_retry by blast
next
  show "snd (resubmission r) = (res_chunk r)\<lparr>attempt := attempt (res_chunk r) + 1\<rparr>"
    by (simp add: resubmission_def)
next
  assume "attempt (res_chunk r) < maxRetryAttempts \<and> maxRetryAttempts \<le> 34"
  then have "attempt (res_chunk r) \<le> 33" by simp
  from timerDuration_seconds [OF this]
  show "sint (fst (resubmission r)) = 2 ^ attempt (res_chunk r) * 1000000000"
    by (simp add: resubmission_def)
next
  show "timerCallback True c = None" "timerCallback False c = Some c"
    by (simp_all add: timerCallback_def)
qed

theorem chunk_upload_coordination_witness:
  "collectChunkUploadError 5 False [failResult 1 2, okResult 0, failResult 1 5, okResult 9] 2 =
     Some \<lparr>returned = Some (failResult 1 5), stopClosed = True,
           timers = [resubmission (failResult 1 2)], undrained = [okResult 9]\<rparr> \<and>
   collectChunkUploadError 5 False [okResult 0, failResult 1 2, okResult 1, okResult 9] 2 =
     Some \<lparr>returned = None, stopClosed = True,
           timers = [resubmission (failResult 1 2)], undrained = [okResult 9]\<rparr> \<and>
   snd (resubmission (failResult 1 2)) = \<lparr>chunk_id = 1, offset = 0, attempt = 3\<rparr> \<and>
   sint (fst (resubmission (failResult 1 2))) = 4000000000"
proof -
  have e: "res_err (failResult i a) \<noteq> None" "res_err (okResult i) = None"
      "attempt (res_chunk (failResult i a)) = a" for i a
    by (simp_all add: failResult_def okResult_def errNoHost_def Errorf_def)
  have n: "sint (2 :: 64 word) = 2" by simp
  note T1 = chunk_upload_coordination [where pre = "[failResult 1 2, okResult 0]"
      and r = "failResult 1 5" and rest = "[okResult 9]" and maxRetryAttempts = 5
      and noOfChunks = 2 and closed = False, THEN conjunct1, THEN mp]
  note T2 = chunk_upload_coordination [where pre = "[okResult 0, failResult 1 2]"
      and s = "okResult 1" and rest = "[okResult 9]" and maxRetryAttempts = 5
      and noOfChunks = 2 and closed = False, THEN conjunct2, THEN conjunct1, THEN mp]
  note T3 = chunk_upload_coordination [where r = "failResult 1 2" and maxRetryAttempts = 5,
      THEN conjunct2, THEN conjunct2, THEN conjunct2]
  have a: "collectChunkUploadError 5 False ([failResult 1 2, okResult 0] @ failResult 1 5 # [okResult 9]) 2 =
     Some \<lparr>returned = Some (failResult 1 5), stopClosed = True,
           timers = map resubmission (filter (\<lambda>x. res_err x \<noteq> None) [failResult 1 2, okResult 0]),
           undrained = [okResult 9]\<rparr>"
    by (rule T1) (simp add: e n)
  have b: "collectChunkUploadError 5 False ([okResult 0, failResult 1 2] @ okResult 1 # [okResult 9]) 2 =
     Some \<lparr>returned = None, stopClosed = True,
           timers = map resubmission (filter (\<lambda>x. res_err x \<noteq> None) [okResult 0, failResult 1 2]),
           undrained = [okResult 9]\<rparr>"
    by (rule T2) (simp add: e n)
  from T3 have c: "snd (resubmission (failResult 1 2)) = \<lparr>chunk_id = 1, offset = 0, attempt = 3\<rparr>"
      "sint (fst (resubmission (failResult 1 2))) = 4000000000"
    by (simp_all add: e) (simp add: failResult_def)
  from a b c show ?thesis by (simp add: e)
qed

subsection \<open>The store resolver\<close>




















end
